theory Spec2Isabelle
  imports Main "HOL-Library.Sublist" "HOL-Library.List_Lexorder" "HOL-Library.AList"
begin

section \<open>Strings of code points and the Unicode library\<close>

text \<open>
  A Python \<open>str\<close> is a sequence of Unicode code points, so a string is a list of
  natural numbers here; \<open>asc\<close> turns an ASCII literal into such a list.
\<close>

type_synonym ustr = "nat list"

definition asc :: "string \<Rightarrow> ustr" where
  "asc s = map of_char s"

text \<open>
  Three things the script takes from Python's Unicode tables are not part of its source:
  \<open>unicodedata.normalize("NFC", _)\<close>, \<open>str.lower\<close>, and the characters beyond ASCII that
  the regular expression \<open>\d\<close> accepts (category Nd). They are parameters of the model;
  every general theorem below holds for all of them.
\<close>

record unicode =
  normalize_nfc :: "ustr \<Rightarrow> ustr"
  str_lower :: "ustr \<Rightarrow> ustr"
  decimal_beyond_ascii :: "nat \<Rightarrow> bool"

definition nfc :: "unicode \<Rightarrow> ustr \<Rightarrow> ustr" where
  "nfc U text = normalize_nfc U text"

definition lower :: "unicode \<Rightarrow> ustr \<Rightarrow> ustr" where
  "lower U text = str_lower U text"

text \<open>
  For the concrete inputs below the three functions are needed on actual strings. This
  instance is what Python computes on strings made of ASCII characters, kana, CJK
  unified ideographs, the fullwidth digits and underscore, and the combining voiced and
  semi-voiced sound marks U+3099 and U+309A where a mark follows a kana of the k, s, t
  or h row (\<open>voiced_bases\<close>, and \<open>semi_voiced_bases\<close> for U+309A): NFC composes such a
  kana and the mark into the next code point (the next but one for U+309A) and leaves
  the other characters as they are, only ASCII letters have a lower case, and the
  fullwidth digits U+FF10 to U+FF19 are the decimal digits beyond ASCII.
\<close>

definition voiced_bases :: "nat list" where
  "voiced_bases =
    [0x304B, 0x304D, 0x304F, 0x3051, 0x3053, 0x3055, 0x3057, 0x3059, 0x305B, 0x305D,
     0x305F, 0x3061, 0x3064, 0x3066, 0x3068, 0x306F, 0x3072, 0x3075, 0x3078, 0x307B,
     0x30AB, 0x30AD, 0x30AF, 0x30B1, 0x30B3, 0x30B5, 0x30B7, 0x30B9, 0x30BB, 0x30BD,
     0x30BF, 0x30C1, 0x30C4, 0x30C6, 0x30C8, 0x30CF, 0x30D2, 0x30D5, 0x30D8, 0x30DB]"

definition semi_voiced_bases :: "nat list" where
  "semi_voiced_bases =
    [0x306F, 0x3072, 0x3075, 0x3078, 0x307B, 0x30CF, 0x30D2, 0x30D5, 0x30D8, 0x30DB]"

fun compose_kana :: "ustr \<Rightarrow> ustr" where
  "compose_kana (c # m # rest) =
     (if m = 0x3099 \<and> c \<in> set voiced_bases then (c + 1) # compose_kana rest
      else if m = 0x309A \<and> c \<in> set semi_voiced_bases then (c + 2) # compose_kana rest
      else c # compose_kana (m # rest))"
| "compose_kana s = s"

definition ascii_lower :: "nat \<Rightarrow> nat" where
  "ascii_lower c = (if 0x41 \<le> c \<and> c \<le> 0x5A then c + 0x20 else c)"

definition python_unicode :: unicode where
  "python_unicode =
     \<lparr>normalize_nfc = compose_kana,
      str_lower = map ascii_lower,
      decimal_beyond_ascii = (\<lambda>c. 0xFF10 \<le> c \<and> c \<le> 0xFF19)\<rparr>"

text \<open>\<open>keyword in text\<close> on strings: \<open>keyword\<close> occurs as a contiguous run.\<close>

fun py_in :: "ustr \<Rightarrow> ustr \<Rightarrow> bool" where
  "py_in k [] = (k = [])"
| "py_in k (x # xs) = (prefix k (x # xs) \<or> py_in k xs)"

section \<open>The keyword table\<close>

definition rinrin_port :: ustr where
  "rinrin_port = [0x308A, 0x3093, 0x308A, 0x3093, 0x30DD, 0x30FC, 0x30C8, 0x571F, 0x6D66]"

definition shiawase_no_kane :: ustr where
  "shiawase_no_kane = [0x5E78, 0x305B, 0x306E, 0x9418]"

definition suisha :: ustr where
  "suisha = [0x6C34, 0x8ECA]"

definition fuusha :: ustr where
  "fuusha = [0x98A8, 0x8ECA]"

definition tamokuteki_hiroba :: ustr where
  "tamokuteki_hiroba = [0x591A, 0x76EE, 0x7684, 0x5E83, 0x5834]"

definition suigou_no_taki :: ustr where
  "suigou_no_taki = [0x6C34, 0x90F7, 0x306E, 0x6EDD]"

definition zeppelin_gou :: ustr where
  "zeppelin_gou = [0x30C4, 0x30A7, 0x30C3, 0x30DA, 0x30EA, 0x30F3, 0x53F7]"

definition rest_house :: ustr where
  "rest_house = [0x30EC, 0x30B9, 0x30C8, 0x30CF, 0x30A6, 0x30B9]"

definition sanpomichi :: ustr where
  "sanpomichi = [0x6563, 0x6B69, 0x9053]"

definition jogging_course :: ustr where
  "jogging_course = [0x30B8, 0x30E7, 0x30AE, 0x30F3, 0x30B0, 0x30B3, 0x30FC, 0x30B9]"

definition mori1 :: ustr where
  "mori1 = [0x68EE, 0x31]"

text \<open>
  \<open>KEYWORD_TO_SPOT_TITLE\<close>, in the order of the source: the strong keywords, the
  medium ones, the weak fallbacks. The keyword at index 29 is U+9CE5 ("bird"), the one
  at index 34 is U+6C34 ("water").
\<close>

definition KEYWORD_TO_SPOT_TITLE :: "(ustr \<times> ustr) list" where
  "KEYWORD_TO_SPOT_TITLE =
    [([0x5E06, 0x66F3, 0x8239], rinrin_port),
     ([0x77, 0x68, 0x69, 0x74, 0x65, 0x20, 0x69, 0x72, 0x69, 0x73], rinrin_port),
     ([0x30DB, 0x30EF, 0x30A4, 0x30C8, 0x30A2, 0x30A4, 0x30EA, 0x30B9], rinrin_port),
     ([0x5E30, 0x6E2F], rinrin_port),
     ([0x9418], shiawase_no_kane),
     ([0x6C34, 0x8ECA], suisha),
     ([0x98A8, 0x8ECA], fuusha),
     ([0x91CE, 0x7403], tamokuteki_hiroba),
     ([0x30B5, 0x30C3, 0x30AB, 0x30FC], tamokuteki_hiroba),
     ([0x30BD, 0x30D5, 0x30C8, 0x30DC, 0x30FC, 0x30EB], tamokuteki_hiroba),
     ([0x6EDD], suigou_no_taki),
     ([0x3072, 0x3053, 0x3046, 0x304D], zeppelin_gou),
     ([0x98DB, 0x884C, 0x6A5F], zeppelin_gou),
     ([0x6C34, 0x8DEF], fuusha),
     ([0x677F], fuusha),
     ([0x30C7, 0x30C3, 0x30AD], rest_house),
     ([0x3058, 0x3083, 0x308A], rest_house),
     ([0x81EA, 0x8CA9, 0x6A5F], rest_house),
     ([0x6249], rest_house),
     ([0x7BB1], rest_house),
     ([0x9244, 0x7434], rest_house),
     ([0x9396], rest_house),
     ([0x6C34, 0x69FD], rest_house),
     ([0x968E, 0x6BB5], fuusha),
     ([0x7802], sanpomichi),
     ([0x8DB3, 0x97F3], jogging_course),
     ([0x67AF, 0x8449], jogging_course),
     ([0x30C9, 0x30F3, 0x30B0, 0x30EA], jogging_course),
     ([0x3069, 0x3093, 0x3050, 0x308A], jogging_course),
     ([0x9CE5], mori1),
     ([0x3055, 0x3048, 0x305A, 0x308A], mori1),
     ([0x85AE], mori1),
     ([0x866B], mori1),
     ([0x6728], mori1),
     ([0x6C34], suigou_no_taki),
     ([0x6C60], suigou_no_taki),
     ([0x5DDD], suigou_no_taki)]"

definition kw_tori :: ustr where
  "kw_tori = [0x9CE5]"

definition kw_mizu :: ustr where
  "kw_mizu = [0x6C34]"

definition keywords_before_tori :: "(ustr \<times> ustr) list" where
  "keywords_before_tori = take 29 KEYWORD_TO_SPOT_TITLE"

section \<open>The spot classifier\<close>

text \<open>
  The \<open>for\<close> loop of \<open>guess_spot_title\<close> over a table: the first pair whose lower-cased
  keyword occurs in the lower-cased \<open>d\<close> decides; running off the end is \<open>None\<close>.
\<close>

fun scan_keywords :: "unicode \<Rightarrow> ustr \<Rightarrow> (ustr \<times> ustr) list \<Rightarrow> ustr option" where
  "scan_keywords U d [] = None"
| "scan_keywords U d ((keyword, spot) # table) =
     (if py_in (lower U keyword) (lower U d) then Some spot else scan_keywords U d table)"

definition guess_spot_title :: "unicode \<Rightarrow> ustr \<Rightarrow> ustr option" where
  "guess_spot_title U desc =
     (let d = nfc U desc in scan_keywords U d KEYWORD_TO_SPOT_TITLE)"

section \<open>The normalizer\<close>

text \<open>
  \<open>str.replace(old, new)\<close>: the occurrences of \<open>old\<close> are found from the left and do not
  overlap; an empty \<open>old\<close> matches before every character and at the end.
\<close>

function replace :: "ustr \<Rightarrow> ustr \<Rightarrow> ustr \<Rightarrow> ustr" where
  "replace old new [] = (if old = [] then new else [])"
| "replace old new (x # xs) =
     (if old = [] then new @ x # replace old new xs
      else if prefix old (x # xs) then new @ replace old new (drop (length old) (x # xs))
      else x # replace old new xs)"
  by pat_completeness auto
termination
  by (relation "measure (\<lambda>(old, new, s). length s)") auto

text \<open>\<open>re.sub(r"c+", "c", t)\<close> for a single character \<open>c\<close>: every run of \<open>c\<close> becomes one \<open>c\<close>.\<close>

function collapse_runs :: "nat \<Rightarrow> ustr \<Rightarrow> ustr" where
  "collapse_runs c [] = []"
| "collapse_runs c (x # xs) =
     (if x = c then c # collapse_runs c (dropWhile (\<lambda>y. y = c) xs)
      else x # collapse_runs c xs)"
  by pat_completeness auto
termination
  by (relation "measure (\<lambda>(c, s). length s)") (auto simp: less_Suc_eq_le length_dropWhile_le)

text \<open>\<open>t.strip("_")\<close>, for any single character.\<close>

definition strip :: "nat \<Rightarrow> ustr \<Rightarrow> ustr" where
  "strip c t = rev (dropWhile (\<lambda>y. y = c) (rev (dropWhile (\<lambda>y. y = c) t)))"

definition clean_separators :: "unicode \<Rightarrow> ustr \<Rightarrow> ustr" where
  "clean_separators U text =
     (let t = nfc U text;
          t = replace [0xFF3F] (asc ''_'') t;
          t = replace (asc '' '') [] t;
          t = collapse_runs 0x2E t;
          t = replace (asc ''..'') (asc ''.'') t;
          t = replace (asc ''.'') [] t;
          t = collapse_runs 0x5F t;
          t = strip 0x5F t
      in t)"

text \<open>
  \<open>re.sub(r"(?i)mp3", "", text)\<close>: only \<open>m\<close>/\<open>M\<close> and \<open>p\<close>/\<open>P\<close> match the letters, and a
  removed occurrence is not scanned again.
\<close>

fun strip_mp3_token :: "ustr \<Rightarrow> ustr" where
  "strip_mp3_token (a # b # c # rest) =
     (if (a = 0x6D \<or> a = 0x4D) \<and> (b = 0x70 \<or> b = 0x50) \<and> c = 0x33
      then strip_mp3_token rest
      else a # strip_mp3_token (b # c # rest))"
| "strip_mp3_token text = text"

section \<open>The filename grammar parser\<close>

record ParsedAudioName =
  speaker :: ustr
  date_yyyymmdd :: ustr
  time_hhmmss :: "ustr option"
  descriptor :: ustr
  source_kind :: ustr
  keep_id :: "ustr option"

text \<open>
  What the regular expressions match. \<open>\d\<close> is a decimal digit of any script;
  \<open>[^0-9_]\<close> and \<open>[^_]\<close> exclude ASCII characters only. \<open>(.*)$\<close> takes the text up to
  the end of the string, where \<open>.\<close> is no line feed and \<open>$\<close> also matches before one
  line feed that ends the string.
\<close>

definition ascii_digit :: "nat \<Rightarrow> bool" where
  "ascii_digit c = (0x30 \<le> c \<and> c \<le> 0x39)"

definition re_digit :: "unicode \<Rightarrow> nat \<Rightarrow> bool" where
  "re_digit U c = (ascii_digit c \<or> (128 \<le> c \<and> decimal_beyond_ascii U c))"

definition no_digit_no_underscore :: "nat \<Rightarrow> bool" where
  "no_digit_no_underscore c = (\<not> ascii_digit c \<and> c \<noteq> 0x5F)"

definition rest_group :: "ustr \<Rightarrow> ustr option" where
  "rest_group s =
     (let r = takeWhile (\<lambda>c. c \<noteq> 0x0A) s
      in if s = r \<or> s = r @ [0x0A] then Some r else None)"

text \<open>
  A greedy \<open>+\<close> that backtracks: the longest run is tried first, then shorter ones down
  to one character, and the first length at which the rest of the pattern matches wins.
\<close>

fun longest_first :: "nat \<Rightarrow> (nat \<Rightarrow> 'a option) \<Rightarrow> 'a option" where
  "longest_first 0 attempt = None"
| "longest_first (Suc k) attempt =
     (case attempt (Suc k) of Some m \<Rightarrow> Some m | None \<Rightarrow> longest_first k attempt)"

text \<open>The pattern of Grammar B after the speaker: \<open>(\d{8})_(\d{6})(.*)$\<close>.\<close>

definition after_speaker_b :: "unicode \<Rightarrow> ustr \<Rightarrow> (ustr \<times> ustr \<times> ustr) option" where
  "after_speaker_b U s =
     (let date = take 8 s; s1 = drop 8 s; time = take 6 (drop 1 s1); s2 = drop 7 s1
      in if length date = 8 \<and> list_all (re_digit U) date \<and> take 1 s1 = asc ''_''
            \<and> length time = 6 \<and> list_all (re_digit U) time
         then map_option (\<lambda>rest. (date, time, rest)) (rest_group s2)
         else None)"

definition match_tsukamoto :: "unicode \<Rightarrow> ustr \<Rightarrow> (ustr \<times> ustr \<times> ustr \<times> ustr) option" where
  "match_tsukamoto U stem =
     longest_first (length (takeWhile no_digit_no_underscore stem))
       (\<lambda>k. map_option (\<lambda>g. (take k stem, g)) (after_speaker_b U (drop k stem)))"

definition parse_tsukamoto_style :: "unicode \<Rightarrow> ustr \<Rightarrow> ParsedAudioName option" where
  "parse_tsukamoto_style U stem =
     (case match_tsukamoto U stem of
        None \<Rightarrow> None
      | Some (sp, date, time, rest) \<Rightarrow>
          (let rest = strip_mp3_token rest;
               rest = clean_separators U rest;
               rest = replace (asc ''(1)'') (asc ''take1_'') rest;
               rest = replace (asc ''(2)'') (asc ''take2_'') rest;
               rest = replace (asc ''(3)'') (asc ''take3_'') rest;
               rest = clean_separators U rest;
               d = (if rest \<noteq> [] then rest else asc ''UnknownContent'')
           in Some \<lparr>speaker = sp, date_yyyymmdd = date, time_hhmmss = Some time,
                     descriptor = d, source_kind = asc ''B'', keep_id = None\<rparr>))"

text \<open>The pattern of Grammar A after the speaker: \<open>_WAV_(\d{4})_(\d{3})(.*)$\<close>.\<close>

definition after_speaker_a :: "unicode \<Rightarrow> ustr \<Rightarrow> (ustr \<times> ustr \<times> ustr) option" where
  "after_speaker_a U s =
     (let s1 = drop 5 s; id1 = take 4 s1; s2 = drop 4 s1; id2 = take 3 (drop 1 s2); s3 = drop 4 s2
      in if take 5 s = asc ''_WAV_'' \<and> length id1 = 4 \<and> list_all (re_digit U) id1
            \<and> take 1 s2 = asc ''_'' \<and> length id2 = 3 \<and> list_all (re_digit U) id2
         then map_option (\<lambda>rest. (id1, id2, rest)) (rest_group s3)
         else None)"

definition match_suzuki :: "unicode \<Rightarrow> ustr \<Rightarrow> (ustr \<times> ustr \<times> ustr \<times> ustr) option" where
  "match_suzuki U stem =
     longest_first (length (takeWhile (\<lambda>c. c \<noteq> 0x5F) stem))
       (\<lambda>k. map_option (\<lambda>g. (take k stem, g)) (after_speaker_a U (drop k stem)))"

text \<open>\<open>s.zfill(width)\<close>: zeros go after a leading sign.\<close>

definition zfill :: "nat \<Rightarrow> ustr \<Rightarrow> ustr" where
  "zfill width s =
     (if width \<le> length s then s
      else (case s of
              c # r \<Rightarrow>
                if c = 0x2B \<or> c = 0x2D then c # replicate (width - length s) 0x30 @ r
                else replicate (width - length s) 0x30 @ s
            | [] \<Rightarrow> replicate width 0x30))"

definition parse_suzuki_style :: "unicode \<Rightarrow> ustr \<Rightarrow> ustr \<Rightarrow> bool \<Rightarrow> ParsedAudioName option" where
  "parse_suzuki_style U stem unknown_date keep =
     (case match_suzuki U stem of
        None \<Rightarrow> None
      | Some (sp, id1, id2, rest) \<Rightarrow>
          (let rest = strip_mp3_token rest;
               rest = clean_separators U rest;
               rest = (if prefix (asc ''_'') rest then drop 1 rest else rest);
               d = (if rest \<noteq> [] then rest else asc ''UnknownContent'');
               kept = (if keep then Some (asc ''WAV'' @ zfill 4 id1 @ asc ''_'' @ zfill 3 id2)
                       else None)
           in Some \<lparr>speaker = sp, date_yyyymmdd = unknown_date, time_hhmmss = None,
                     descriptor = d, source_kind = asc ''A'', keep_id = kept\<rparr>))"

section \<open>Paths and the directory\<close>

text \<open>
  A \<open>pathlib\<close> path is the list of its components; the script reads the last one (the
  name) and replaces it. \<open>Path(filename)\<close> splits at \<open>/\<close> and drops empty and \<open>.\<close>
  components.
\<close>

type_synonym path = "ustr list"

fun split_on :: "nat \<Rightarrow> ustr \<Rightarrow> ustr list" where
  "split_on c [] = [[]]"
| "split_on c (x # xs) =
     (if x = c then [] # split_on c xs
      else (case split_on c xs of part # parts \<Rightarrow> (x # part) # parts | [] \<Rightarrow> [[x]]))"

definition Path :: "ustr \<Rightarrow> path" where
  "Path s = filter (\<lambda>part. part \<noteq> [] \<and> part \<noteq> asc ''.'') (split_on 0x2F s)"

definition path_name :: "path \<Rightarrow> ustr" where
  "path_name p = (if p = [] then [] else last p)"

definition path_parent :: "path \<Rightarrow> path" where
  "path_parent p = butlast p"

text \<open>
  \<open>name.rfind('.')\<close>, and the suffix and stem that \<open>pathlib\<close> computes from it: the
  suffix starts at the last dot unless that dot is the first or the last character.
\<close>

definition rfind_dot :: "ustr \<Rightarrow> nat option" where
  "rfind_dot nm =
     (if 0x2E \<in> set nm
      then Some (length nm - Suc (length (takeWhile (\<lambda>c. c \<noteq> 0x2E) (rev nm))))
      else None)"

definition path_suffix :: "path \<Rightarrow> ustr" where
  "path_suffix p =
     (let nm = path_name p
      in case rfind_dot nm of
           Some i \<Rightarrow> if 0 < i \<and> i < length nm - 1 then drop i nm else []
         | None \<Rightarrow> [])"

definition path_stem :: "path \<Rightarrow> ustr" where
  "path_stem p =
     (let nm = path_name p
      in case rfind_dot nm of
           Some i \<Rightarrow> if 0 < i \<and> i < length nm - 1 then take i nm else nm
         | None \<Rightarrow> nm)"

text \<open>
  \<open>with_name\<close> raises \<open>ValueError\<close> when the path has no name, or when the new name is
  empty or contains the separator.
\<close>

datatype error = ValueError

definition with_name :: "path \<Rightarrow> ustr \<Rightarrow> error + path" where
  "with_name p nm =
     (if path_name p = [] then Inl ValueError
      else if nm = [] \<or> 0x2F \<in> set nm then Inl ValueError
      else Inr (butlast p @ [nm]))"

text \<open>
  The file system at the time the plan is made: the paths that have a directory entry,
  each with what \<open>stat\<close> finds behind it. A symbolic link to nothing has an entry and
  does not exist.
\<close>

datatype entry_kind = RegularFile | OtherKind | BrokenLink

type_synonym filesystem = "(path \<times> entry_kind) list"

definition path_exists :: "filesystem \<Rightarrow> path \<Rightarrow> bool" where
  "path_exists fs p = list_ex (\<lambda>(q, k). q = p \<and> k \<noteq> BrokenLink) fs"

definition is_file :: "filesystem \<Rightarrow> path \<Rightarrow> bool" where
  "is_file fs p = list_ex (\<lambda>(q, k). q = p \<and> k = RegularFile) fs"

definition iterdir :: "filesystem \<Rightarrow> path \<Rightarrow> path list" where
  "iterdir fs dir = map fst (filter (\<lambda>(q, k). q \<noteq> [] \<and> butlast q = dir) fs)"

section \<open>The parser's entry point and the filename builder\<close>

definition parse_audio_name :: "unicode \<Rightarrow> ustr \<Rightarrow> ustr \<Rightarrow> bool \<Rightarrow> ParsedAudioName option" where
  "parse_audio_name U filename unknown_date keep_suzuki_id =
     (let p = Path filename
      in if lower U (path_suffix p) \<noteq> asc ''.mp3'' then None
         else (let stem = nfc U (path_stem p)
               in case parse_tsukamoto_style U stem of
                    Some parsed_b \<Rightarrow> Some parsed_b
                  | None \<Rightarrow> parse_suzuki_style U stem unknown_date keep_suzuki_id))"

definition NAME_ROMAJI :: "(ustr \<times> ustr) list" where
  "NAME_ROMAJI =
    [([0x9234, 0x6728], asc ''Suzuki''),
     ([0x585A, 0x672C], asc ''Tsukamoto''),
     ([0x9AD8, 0x91CE], asc ''Takano'')]"

text \<open>\<open>NAME_ROMAJI.get(speaker, speaker)\<close>.\<close>

definition romaji :: "ustr \<Rightarrow> ustr" where
  "romaji sp = (case map_of NAME_ROMAJI sp of Some r \<Rightarrow> r | None \<Rightarrow> sp)"

fun join :: "ustr \<Rightarrow> ustr list \<Rightarrow> ustr" where
  "join sep [] = []"
| "join sep [part] = part"
| "join sep (part # parts) = part @ sep @ join sep parts"

text \<open>\<open>if parsed.time_hhmmss:\<close> holds for a string that is present and not empty.\<close>

definition if_truthy :: "ustr option \<Rightarrow> ustr list" where
  "if_truthy v = (case v of Some t \<Rightarrow> if t \<noteq> [] then [t] else [] | None \<Rightarrow> [])"

definition build_new_filename :: "unicode \<Rightarrow> ParsedAudioName \<Rightarrow> bool \<Rightarrow> ustr" where
  "build_new_filename U parsed romanize_names =
     (let sp = (if romanize_names then romaji (speaker parsed) else speaker parsed);
          parts = [sp, date_yyyymmdd parsed] @ if_truthy (time_hhmmss parsed)
                    @ if_truthy (keep_id parsed) @ [descriptor parsed];
          joined = join (asc ''_'') parts;
          joined = clean_separators U joined;
          joined = (if joined = [] then sp @ asc ''_'' @ date_yyyymmdd parsed
                                         @ asc ''_UnknownContent''
                    else joined)
      in joined @ asc ''.mp3'')"

section \<open>The rename planner\<close>

record RenamePlanItem =
  src :: path
  dst :: path

text \<open>
  The first loop of \<open>plan_renames\<close>, over the sorted directory listing. A \<open>ValueError\<close>
  of \<open>with_name\<close> ends the whole function.
\<close>

fun collect_items ::
  "unicode \<Rightarrow> filesystem \<Rightarrow> ustr set \<Rightarrow> bool \<Rightarrow> ustr \<Rightarrow> bool \<Rightarrow> path list
     \<Rightarrow> error + RenamePlanItem list" where
  "collect_items U fs targets romanize_names unknown_date keep_suzuki_id [] = Inr []"
| "collect_items U fs targets romanize_names unknown_date keep_suzuki_id (entry # entries) =
     (let continue = collect_items U fs targets romanize_names unknown_date keep_suzuki_id entries;
          stem = nfc U (path_stem entry);
          speaker_prefix = takeWhile no_digit_no_underscore stem
      in if \<not> is_file fs entry then continue
         else if lower U (path_suffix entry) \<noteq> asc ''.mp3'' then continue
         else if speaker_prefix = [] then continue
         else if speaker_prefix \<notin> targets then continue
         else (case parse_audio_name U (path_name entry) unknown_date keep_suzuki_id of
                 None \<Rightarrow> continue
               | Some parsed \<Rightarrow>
                   (case with_name entry (build_new_filename U parsed romanize_names) of
                      Inl e \<Rightarrow> Inl e
                    | Inr d \<Rightarrow>
                        (case continue of
                           Inl e \<Rightarrow> Inl e
                         | Inr items \<Rightarrow> Inr (\<lparr>src = entry, dst = d\<rparr> # items)))))"

text \<open>\<open>str(i)\<close> for a natural number: its decimal digits.\<close>

fun decimal :: "nat \<Rightarrow> ustr" where
  "decimal n = (if n < 10 then [0x30 + n] else decimal (n div 10) @ [0x30 + n mod 10])"

declare decimal.simps [simp del]

definition dup_name :: "ustr \<Rightarrow> ustr \<Rightarrow> nat \<Rightarrow> ustr" where
  "dup_name base sfx i = base @ asc ''_dup'' @ decimal i @ sfx"

text \<open>
  The collision loop ends because the names \<open>base_dup1suffix\<close>, \<open>base_dup2suffix\<close>, ...
  are all different while only finitely many paths exist or are claimed. The next
  definitions and lemmas are the measure of that argument.
\<close>

definition undecimal :: "ustr \<Rightarrow> nat" where
  "undecimal s = foldl (\<lambda>a c. 10 * a + (c - 0x30)) 0 s"

lemma undecimal_decimal: "undecimal (decimal n) = n"
proof (induction n rule: decimal.induct)
  case (1 n)
  show ?case
  proof (cases "n < 10")
    case True
    then show ?thesis by (simp add: decimal.simps [of n] undecimal_def)
  next
    case False
    with 1 have "undecimal (decimal (n div 10)) = n div 10" by simp
    with False show ?thesis
      by (simp add: decimal.simps [of n] undecimal_def)
  qed
qed

lemma decimal_inj: "decimal m = decimal n \<Longrightarrow> m = n"
  by (metis undecimal_decimal)

lemma dup_name_inj: "dup_name base sfx i = dup_name base sfx j \<Longrightarrow> i = j"
  by (auto simp: dup_name_def dest: decimal_inj)

definition taken :: "filesystem \<Rightarrow> path list \<Rightarrow> path \<Rightarrow> bool" where
  "taken fs used p = (path_exists fs p \<or> p \<in> set used)"

lemma taken_finite: "finite {p. taken fs used p}"
proof -
  have "{p. taken fs used p} \<subseteq> fst ` set fs \<union> set used"
    by (force simp: taken_def path_exists_def list_ex_iff)
  then show ?thesis by (rule finite_subset) simp
qed

definition dups_taken ::
  "filesystem \<Rightarrow> path list \<Rightarrow> path \<Rightarrow> ustr \<Rightarrow> ustr \<Rightarrow> nat \<Rightarrow> nat set" where
  "dups_taken fs used dir base sfx i =
     {j. i \<le> j \<and> taken fs used (dir @ [dup_name base sfx j])}"

lemma dups_taken_finite: "finite (dups_taken fs used dir base sfx i)"
proof -
  let ?f = "\<lambda>j. dir @ [dup_name base sfx j]"
  have inj: "inj ?f" by (auto simp: inj_on_def dest: dup_name_inj)
  have "dups_taken fs used dir base sfx i \<subseteq> ?f -` {p. taken fs used p}"
    by (auto simp: dups_taken_def)
  moreover have "finite (?f -` {p. taken fs used p})"
    using taken_finite inj by (rule finite_vimageI)
  ultimately show ?thesis by (rule finite_subset)
qed

lemma dups_taken_step:
  "dups_taken fs used dir base sfx i =
     (if taken fs used (dir @ [dup_name base sfx i]) then {i} else {})
       \<union> dups_taken fs used dir base sfx (Suc i)"
  by (auto simp: dups_taken_def le_Suc_eq Suc_le_eq) (metis le_neq_implies_less)+

definition resolve_measure ::
  "filesystem \<times> path list \<times> ustr \<times> ustr \<times> nat \<times> path \<Rightarrow> nat" where
  "resolve_measure = (\<lambda>(fs, used, base, sfx, i, d).
      2 * card (dups_taken fs used (butlast d) base sfx i) + (if taken fs used d then 1 else 0))"

text \<open>
  The \<open>while\<close> loop of the collision resolution, for one item: \<open>d\<close> is the loop variable
  \<open>dst\<close>, \<open>used\<close> the destinations claimed so far.
\<close>

function resolve_dst ::
  "filesystem \<Rightarrow> path list \<Rightarrow> ustr \<Rightarrow> ustr \<Rightarrow> nat \<Rightarrow> path \<Rightarrow> error + path" where
  "resolve_dst fs used base sfx i d =
     (if path_exists fs d \<or> d \<in> set used
      then (case with_name d (dup_name base sfx i) of
              Inl e \<Rightarrow> Inl e
            | Inr d' \<Rightarrow> resolve_dst fs used base sfx (i + 1) d')
      else Inr d)"
  by pat_completeness auto
termination
proof (relation "measure resolve_measure")
  show "wf (measure resolve_measure)" by simp
next
  fix fs :: filesystem and used :: "path list" and base sfx :: ustr and i :: nat
    and d d' :: path
  assume t: "path_exists fs d \<or> d \<in> set used"
    and w: "with_name d (dup_name base sfx i) = Inr d'"
  from w have d': "d' = butlast d @ [dup_name base sfx i]"
    by (auto simp: with_name_def split: if_splits)
  have fin: "finite (dups_taken fs used (butlast d) base sfx (Suc i))"
    by (rule dups_taken_finite)
  have notin: "i \<notin> dups_taken fs used (butlast d) base sfx (Suc i)"
    by (simp add: dups_taken_def)
  from t have "taken fs used d" by (simp add: taken_def)
  then show "((fs, used, base, sfx, i + 1, d'), (fs, used, base, sfx, i, d))
      \<in> measure resolve_measure"
    using fin notin
    by (simp add: resolve_measure_def d' butlast_append
          dups_taken_step [of fs used "butlast d" base sfx i])
qed

declare resolve_dst.simps [simp del]

text \<open>The second loop of \<open>plan_renames\<close>, over the items.\<close>

fun resolve_collisions ::
  "filesystem \<Rightarrow> path list \<Rightarrow> RenamePlanItem list \<Rightarrow> error + RenamePlanItem list" where
  "resolve_collisions fs used [] = Inr []"
| "resolve_collisions fs used (item # items) =
     (case resolve_dst fs used (path_stem (dst item)) (path_suffix (dst item)) 1 (dst item) of
        Inl e \<Rightarrow> Inl e
      | Inr d \<Rightarrow>
          (case resolve_collisions fs (d # used) items of
             Inl e \<Rightarrow> Inl e
           | Inr resolved \<Rightarrow> Inr (\<lparr>src = src item, dst = d\<rparr> # resolved)))"

definition plan_renames ::
  "unicode \<Rightarrow> filesystem \<Rightarrow> path \<Rightarrow> ustr set \<Rightarrow> bool \<Rightarrow> ustr \<Rightarrow> bool
     \<Rightarrow> error + RenamePlanItem list" where
  "plan_renames U fs audio_dir targets romanize_names unknown_date keep_suzuki_id =
     (case collect_items U fs targets romanize_names unknown_date keep_suzuki_id
             (sort (iterdir fs audio_dir)) of
        Inl e \<Rightarrow> Inl e
      | Inr items \<Rightarrow>
          (case resolve_collisions fs [] items of
             Inl e \<Rightarrow> Inl e
           | Inr resolved \<Rightarrow>
               Inr (filter (\<lambda>it. path_name (src it) \<noteq> path_name (dst it)) resolved)))"

section \<open>The assignment planner\<close>

text \<open>
  A track entry \<open>{"name": ..., "file": ...}\<close> and a location record of \<open>spots.json\<close>.
  The fields \<open>name\<close> and \<open>file\<close> are \<open>track_name\<close> and \<open>track_file\<close> here. A track read
  from the file may lack a string under \<open>file\<close>, and a record may lack a
  playlist or hold \<open>null\<close> there; every record has a string title, as the interface of
  the file says.
\<close>

record track =
  track_name :: ustr
  track_file :: "ustr option"

record spot =
  title :: ustr
  playlist :: "track list option"

text \<open>
  Python dictionaries keep their keys in insertion order and a later value for a key
  replaces the earlier one in place: an association list with \<open>AList.update\<close>.
  \<open>title_to_spot\<close> is built from the records in order.
\<close>

definition title_to_spot_of :: "spot list \<Rightarrow> (ustr \<times> spot) list" where
  "title_to_spot_of spots = foldl (\<lambda>d s. AList.update (title s) s d) [] spots"

text \<open>\<open>spot.get("playlist") or []\<close>.\<close>

definition playlist_or_empty :: "spot \<Rightarrow> track list" where
  "playlist_or_empty s = (case playlist s of Some tracks \<Rightarrow> tracks | None \<Rightarrow> [])"

definition build_track_name :: "ustr \<Rightarrow> ustr \<Rightarrow> bool \<Rightarrow> ustr" where
  "build_track_name sp desc romanize_names =
     (if romanize_names then romaji sp else sp) @ asc '':'' @ desc"

text \<open>
  The part of the loop body that both planners share, from \<open>guess_spot_title\<close> to the
  \<open>append\<close>: \<open>f\<close> is the path whose name goes into \<open>file\<close> and which is reported when
  no location is found. \<open>additions[spot_title]\<close> exists, since \<open>additions\<close> has the keys
  of \<open>title_to_spot\<close>.
\<close>

definition assign_track ::
  "unicode \<Rightarrow> (ustr \<times> spot) list \<Rightarrow> bool \<Rightarrow> ParsedAudioName \<Rightarrow> path
     \<Rightarrow> (ustr \<times> track list) list \<times> path list \<Rightarrow> (ustr \<times> track list) list \<times> path list" where
  "assign_track U title_to_spot romanize_names parsed f = (\<lambda>(additions, unmapped).
     case guess_spot_title U (descriptor parsed) of
       None \<Rightarrow> (additions, unmapped @ [f])
     | Some spot_title \<Rightarrow>
         (case (if spot_title = [] then None else map_of title_to_spot spot_title) of
            None \<Rightarrow> (additions, unmapped @ [f])
          | Some spot \<Rightarrow>
              (let rel = asc ''audio/'' @ path_name f;
                   new_track = \<lparr>track_name = build_track_name (speaker parsed) (descriptor parsed)
                                          romanize_names,
                                track_file = Some rel\<rparr>
               in if list_ex (\<lambda>t. track_file t = Some rel) (playlist_or_empty spot)
                  then (additions, unmapped)
                  else (AList.map_entry spot_title (\<lambda>tracks. tracks @ [new_track]) additions,
                        unmapped))))"

text \<open>The loop of \<open>plan_spots_additions\<close> over the sorted files.\<close>

fun assign_files ::
  "unicode \<Rightarrow> (ustr \<times> spot) list \<Rightarrow> ustr \<Rightarrow> bool \<Rightarrow> bool \<Rightarrow> ustr set \<Rightarrow> path list
     \<Rightarrow> (ustr \<times> track list) list \<times> path list \<Rightarrow> (ustr \<times> track list) list \<times> path list" where
  "assign_files U title_to_spot unknown_date keep_suzuki_id romanize_names targets [] acc = acc"
| "assign_files U title_to_spot unknown_date keep_suzuki_id romanize_names targets (f # files) acc =
     (let continue = assign_files U title_to_spot unknown_date keep_suzuki_id romanize_names
                       targets files;
          sp = takeWhile no_digit_no_underscore (nfc U (path_stem f))
      in if lower U (path_suffix f) \<noteq> asc ''.mp3'' then continue acc
         else if sp = [] then continue acc
         else if sp \<notin> targets then continue acc
         else (case parse_audio_name U (path_name f) unknown_date keep_suzuki_id of
                 None \<Rightarrow> continue acc
               | Some parsed \<Rightarrow>
                   continue (assign_track U title_to_spot romanize_names parsed f acc)))"

definition plan_spots_additions ::
  "unicode \<Rightarrow> spot list \<Rightarrow> path list \<Rightarrow> ustr \<Rightarrow> bool \<Rightarrow> bool \<Rightarrow> ustr set
     \<Rightarrow> (ustr \<times> track list) list \<times> path list" where
  "plan_spots_additions U spots audio_files unknown_date keep_suzuki_id romanize_names targets =
     (let title_to_spot = title_to_spot_of spots;
          additions = map (\<lambda>(t, s). (t, [])) title_to_spot;
          (additions, unmapped) =
             assign_files U title_to_spot unknown_date keep_suzuki_id romanize_names targets
               (sort audio_files) (additions, [])
      in (filter (\<lambda>(k, v). v \<noteq> []) additions, unmapped))"

text \<open>The loop of \<open>plan_spots_additions_from_rename_plan\<close> over the plan.\<close>

fun assign_plan_items ::
  "unicode \<Rightarrow> (ustr \<times> spot) list \<Rightarrow> ustr \<Rightarrow> bool \<Rightarrow> bool \<Rightarrow> ustr set \<Rightarrow> RenamePlanItem list
     \<Rightarrow> (ustr \<times> track list) list \<times> path list \<Rightarrow> (ustr \<times> track list) list \<times> path list" where
  "assign_plan_items U title_to_spot unknown_date keep_suzuki_id romanize_names targets [] acc
     = acc"
| "assign_plan_items U title_to_spot unknown_date keep_suzuki_id romanize_names targets
     (it # rename_plan) acc =
     (let continue = assign_plan_items U title_to_spot unknown_date keep_suzuki_id
                       romanize_names targets rename_plan
      in case parse_audio_name U (path_name (src it)) unknown_date keep_suzuki_id of
           None \<Rightarrow> continue acc
         | Some parsed \<Rightarrow>
             if speaker parsed \<notin> targets then continue acc
             else continue (assign_track U title_to_spot romanize_names parsed (dst it) acc))"

definition plan_spots_additions_from_rename_plan ::
  "unicode \<Rightarrow> spot list \<Rightarrow> RenamePlanItem list \<Rightarrow> ustr \<Rightarrow> bool \<Rightarrow> bool \<Rightarrow> ustr set
     \<Rightarrow> (ustr \<times> track list) list \<times> path list" where
  "plan_spots_additions_from_rename_plan U spots rename_plan unknown_date keep_suzuki_id
       romanize_names targets =
     (let title_to_spot = title_to_spot_of spots;
          additions = map (\<lambda>(t, s). (t, [])) title_to_spot;
          (additions, unmapped) =
             assign_plan_items U title_to_spot unknown_date keep_suzuki_id romanize_names
               targets rename_plan (additions, [])
      in (filter (\<lambda>(k, v). v \<noteq> []) additions, unmapped))"

section \<open>Merging the additions\<close>

text \<open>
  \<open>apply_spots_additions\<close> changes records in place. \<open>title_to_spot[title]\<close> is the last
  record of the list with that title, so extending its playlist changes that element
  of the list; a title without a record is skipped.
\<close>

fun last_spot :: "ustr \<Rightarrow> spot list \<Rightarrow> spot option" where
  "last_spot t [] = None"
| "last_spot t (s # spots) =
     (case last_spot t spots of
        Some s' \<Rightarrow> Some s'
      | None \<Rightarrow> if title s = t then Some s else None)"

fun extend_last :: "ustr \<Rightarrow> track list \<Rightarrow> spot list \<Rightarrow> spot list" where
  "extend_last t tracks [] = []"
| "extend_last t tracks (s # spots) =
     (if title s = t \<and> last_spot t spots = None
      then s\<lparr>playlist := Some (playlist_or_empty s @ tracks)\<rparr> # spots
      else s # extend_last t tracks spots)"

definition apply_spots_additions :: "spot list \<Rightarrow> (ustr \<times> track list) list \<Rightarrow> spot list" where
  "apply_spots_additions spots additions =
     foldl (\<lambda>spots (t, tracks). extend_last t tracks spots) spots additions"

section \<open>Properties of the spot classifier\<close>

text \<open>
  The contract in the words of the specification: the title paired with the first
  keyword of the table whose lower-case form occurs in the lower-case form of a text.
\<close>

definition first_keyword_in :: "unicode \<Rightarrow> ustr \<Rightarrow> ustr option" where
  "first_keyword_in U text =
     map_option snd
       (find (\<lambda>(keyword, spot). py_in (lower U keyword) (lower U text)) KEYWORD_TO_SPOT_TITLE)"

lemma py_in_iff_sublist: "py_in k s \<longleftrightarrow> sublist k s"
  by (induction s) (auto simp: sublist_Cons_right)

lemma scan_keywords_find:
  "scan_keywords U d table =
     map_option snd (find (\<lambda>(keyword, spot). py_in (lower U keyword) (lower U d)) table)"
  by (induction table) auto

lemma scan_keywords_append:
  "scan_keywords U d (xs @ ys) =
     (case scan_keywords U d xs of Some s \<Rightarrow> Some s | None \<Rightarrow> scan_keywords U d ys)"
  by (induction xs) auto

lemma table_split:
  "KEYWORD_TO_SPOT_TITLE =
     keywords_before_tori @ (kw_tori, mori1) # drop 30 KEYWORD_TO_SPOT_TITLE"
  by (simp add: keywords_before_tori_def KEYWORD_TO_SPOT_TITLE_def kw_tori_def)

text \<open>
  C5 (as amended). For every descriptor, \<open>guess_spot_title\<close> returns the title paired
  with the first keyword of the table whose lower-case form is a substring of the
  lower-case form of the NFC-normalised descriptor, and it returns no match exactly when
  no keyword of the table is such a substring.
\<close>

theorem guess_spot_title_first_match:
  "guess_spot_title U desc = first_keyword_in U (nfc U desc)
   \<and> (guess_spot_title U desc = None \<longleftrightarrow>
        (\<forall>(keyword, spot) \<in> set KEYWORD_TO_SPOT_TITLE.
            \<not> sublist (lower U keyword) (lower U (nfc U desc))))"
proof -
  have eq: "guess_spot_title U desc = first_keyword_in U (nfc U desc)"
    by (simp add: guess_spot_title_def first_keyword_in_def scan_keywords_find)
  have "first_keyword_in U (nfc U desc) = None \<longleftrightarrow>
        (\<forall>(keyword, spot) \<in> set KEYWORD_TO_SPOT_TITLE.
            \<not> sublist (lower U keyword) (lower U (nfc U desc)))"
    by (auto simp: first_keyword_in_def find_None_iff py_in_iff_sublist)
  with eq show ?thesis by simp
qed

text \<open>
  The descriptor U+30C6 U+3099 U+30C3 U+30AD (\<open>dekki\<close>, "deck", with the voiced mark as
  a separate combining character) is classified through the keyword U+30C7 U+30C3 U+30AD.
\<close>

theorem guess_spot_title_first_match_witness:
  "guess_spot_title python_unicode [0x30C6, 0x3099, 0x30C3, 0x30AD] = Some rest_house
   \<and> first_keyword_in python_unicode (nfc python_unicode [0x30C6, 0x3099, 0x30C3, 0x30AD])
       = Some rest_house"
  using guess_spot_title_first_match [of python_unicode "[0x30C6, 0x3099, 0x30C3, 0x30AD]"]
  by (simp add: first_keyword_in_def nfc_def lower_def python_unicode_def
        KEYWORD_TO_SPOT_TITLE_def ascii_lower_def voiced_bases_def)

text \<open>
  C5 as it is stated compares the keywords with the lower-case descriptor itself. No
  keyword occurs in the descriptor above as it stands, and yet it is classified.
\<close>

theorem guess_spot_title_unnormalised_counterexample:
  "\<not> (\<forall>desc. guess_spot_title python_unicode desc = first_keyword_in python_unicode desc)"
proof
  assume "\<forall>desc. guess_spot_title python_unicode desc = first_keyword_in python_unicode desc"
  then have "guess_spot_title python_unicode [0x30C6, 0x3099, 0x30C3, 0x30AD]
               = first_keyword_in python_unicode [0x30C6, 0x3099, 0x30C3, 0x30AD]"
    by blast
  then show False
    by (simp add: guess_spot_title_def first_keyword_in_def nfc_def lower_def
        python_unicode_def KEYWORD_TO_SPOT_TITLE_def ascii_lower_def voiced_bases_def)
qed

text \<open>
  C6 (as amended). For every descriptor in which the keyword U+9CE5 ("bird") occurs
  (after normalisation and lower-casing, as the classifier tests it), wherever it occurs
  and whether or not U+6C34 ("water") occurs too, the classifier never decides through
  the later keyword U+6C34: it returns the title of the first of the 29 keywords listed
  before U+9CE5 that occurs in the descriptor, and \<open>mori1\<close> when none of them occurs.
\<close>

theorem tori_before_mizu:
  assumes "py_in (lower U kw_tori) (lower U (nfc U desc))"
  shows "guess_spot_title U desc =
           (case scan_keywords U (nfc U desc) keywords_before_tori of
              Some spot \<Rightarrow> Some spot
            | None \<Rightarrow> Some mori1)"
proof -
  have "guess_spot_title U desc
          = scan_keywords U (nfc U desc)
              (keywords_before_tori @ (kw_tori, mori1) # drop 30 KEYWORD_TO_SPOT_TITLE)"
    unfolding guess_spot_title_def Let_def using table_split by simp
  with assms show ?thesis
    by (simp add: scan_keywords_append split: option.splits)
qed

text \<open>The descriptor U+6C34 U+9CE5: "water" stands before "bird", the result is \<open>mori1\<close>.\<close>

theorem tori_before_mizu_witness:
  "py_in (lower python_unicode kw_tori) (lower python_unicode (nfc python_unicode [0x6C34, 0x9CE5]))
   \<and> guess_spot_title python_unicode [0x6C34, 0x9CE5] = Some mori1"
proof -
  have h: "py_in (lower python_unicode kw_tori)
             (lower python_unicode (nfc python_unicode [0x6C34, 0x9CE5]))"
    by (simp add: kw_tori_def nfc_def lower_def python_unicode_def ascii_lower_def)
  have "scan_keywords python_unicode (nfc python_unicode [0x6C34, 0x9CE5]) keywords_before_tori
          = None"
    by (simp add: keywords_before_tori_def KEYWORD_TO_SPOT_TITLE_def nfc_def lower_def
          python_unicode_def ascii_lower_def)
  with tori_before_mizu [OF h] h show ?thesis by simp
qed

text \<open>
  C6 as it is stated fails on the descriptor U+9CE5 U+3068 U+6C34 U+8ECA ("bird and water
  wheel"): both keywords occur in it, and the earlier keyword U+6C34 U+8ECA decides.
\<close>

theorem tori_and_mizu_counterexample:
  "\<not> (\<forall>desc. py_in kw_tori desc \<and> py_in kw_mizu desc
          \<longrightarrow> guess_spot_title python_unicode desc = Some mori1)"
proof
  assume a: "\<forall>desc. py_in kw_tori desc \<and> py_in kw_mizu desc
          \<longrightarrow> guess_spot_title python_unicode desc = Some mori1"
  have "py_in kw_tori [0x9CE5, 0x3068, 0x6C34, 0x8ECA]
        \<and> py_in kw_mizu [0x9CE5, 0x3068, 0x6C34, 0x8ECA]"
    by (simp add: kw_tori_def kw_mizu_def)
  with a have "guess_spot_title python_unicode [0x9CE5, 0x3068, 0x6C34, 0x8ECA] = Some mori1"
    by blast
  then show False
    by (simp add: guess_spot_title_def nfc_def lower_def python_unicode_def
        KEYWORD_TO_SPOT_TITLE_def ascii_lower_def suisha_def mori1_def)
qed

section \<open>Properties of the filename grammar parser\<close>

lemma longest_first_unique:
  "0 < k0 \<Longrightarrow> k0 \<le> n \<Longrightarrow> attempt k0 = Some v
     \<Longrightarrow> (\<And>k. k0 < k \<Longrightarrow> k \<le> n \<Longrightarrow> attempt k = None)
     \<Longrightarrow> longest_first n attempt = Some v"
proof (induction n)
  case 0
  then show ?case by simp
next
  case (Suc n)
  show ?case
  proof (cases "k0 = Suc n")
    case True
    with Suc.prems show ?thesis by simp
  next
    case False
    with Suc.prems have le: "k0 \<le> n" and lt: "k0 < Suc n" by simp_all
    have "attempt (Suc n) = None" using Suc.prems(4) [OF lt] by simp
    moreover have "longest_first n attempt = Some v"
      using Suc.IH [OF Suc.prems(1) le Suc.prems(3)] Suc.prems(4) by simp
    ultimately show ?thesis by simp
  qed
qed

lemma re_digit_not_underscore: "re_digit U c \<Longrightarrow> c \<noteq> 0x5F"
  by (auto simp: re_digit_def ascii_digit_def)

lemma rest_group_no_newline: "0x0A \<notin> set s \<Longrightarrow> rest_group s = Some s"
proof -
  assume "0x0A \<notin> set s"
  then have eq: "takeWhile (\<lambda>c. c \<noteq> 0x0A) s = s"
    by (auto simp: takeWhile_eq_all_conv)
  show ?thesis unfolding rest_group_def Let_def eq by simp
qed

lemma after_speaker_b_match:
  assumes "length date = 8" "list_all (re_digit U) date"
    and "length time = 6" "list_all (re_digit U) time"
  shows "after_speaker_b U (date @ asc ''_'' @ time @ rest)
           = map_option (\<lambda>r. (date, time, r)) (rest_group rest)"
  using assms by (simp add: after_speaker_b_def asc_def)

lemma takeWhile_length_le:
  "i < length xs \<Longrightarrow> \<not> P (xs ! i) \<Longrightarrow> length (takeWhile P xs) \<le> i"
  by (metis linorder_not_less nth_mem set_takeWhileD takeWhile_nth)

lemma after_speaker_b_underscore:
  assumes "j < 8" "j < length s" "s ! j = 0x5F"
  shows "after_speaker_b U s = None"
proof -
  from assms have "s ! j \<in> set (take 8 s)"
    by (auto simp: in_set_conv_nth intro!: exI [of _ j])
  with assms(3) have "\<not> list_all (re_digit U) (take 8 s)"
    using re_digit_not_underscore [of U "s ! j"] by (auto simp: list_all_iff)
  then show ?thesis by (simp add: after_speaker_b_def Let_def)
qed

lemma match_tsukamoto_groups:
  assumes sp: "sp \<noteq> []" "list_all no_digit_no_underscore sp"
    and date: "length date = 8" "list_all (re_digit U) date"
    and time: "length time = 6" "list_all (re_digit U) time"
    and rest: "rest_group rest = Some r"
  shows "match_tsukamoto U (sp @ date @ asc ''_'' @ time @ rest) = Some (sp, date, time, r)"
proof -
  let ?stem = "sp @ date @ asc ''_'' @ time @ rest"
  let ?n = "length (takeWhile no_digit_no_underscore ?stem)"
  let ?attempt = "\<lambda>k. map_option (\<lambda>g. (take k ?stem, g)) (after_speaker_b U (drop k ?stem))"
  have us: "?stem ! (length sp + 8) = 0x5F" "length sp + 8 < length ?stem"
    using date by (simp_all add: nth_append asc_def)
  have lo: "length sp \<le> ?n"
    using sp(2) by (simp add: takeWhile_append2 list_all_iff)
  have hi: "?n \<le> length sp + 8"
    using us by (intro takeWhile_length_le) (simp_all add: no_digit_no_underscore_def)
  have here: "?attempt (length sp) = Some (sp, date, time, r)"
    using after_speaker_b_match [OF date time, of rest] rest by simp
  have above: "?attempt k = None" if "length sp < k" "k \<le> ?n" for k
  proof -
    from that hi have j: "length sp + 8 - k < 8" "length sp + 8 - k < length (drop k ?stem)"
      using us(2) by simp_all
    have "k \<le> length ?stem" using that hi us(2) by linarith
    then have "drop k ?stem ! (length sp + 8 - k) = ?stem ! (k + (length sp + 8 - k))"
      by (rule nth_drop)
    also have "k + (length sp + 8 - k) = length sp + 8" using that hi by linarith
    finally have "drop k ?stem ! (length sp + 8 - k) = 0x5F" using us(1) by simp
    with j have "after_speaker_b U (drop k ?stem) = None"
      by (intro after_speaker_b_underscore [of "length sp + 8 - k"])
    then show ?thesis by simp
  qed
  have "longest_first ?n ?attempt = Some (sp, date, time, r)"
    using sp(1) lo here above by (intro longest_first_unique [of "length sp"]) simp_all
  then show ?thesis by (simp add: match_tsukamoto_def)
qed

text \<open>
  C7. A stem that matches the pattern of Grammar B is a speaker of one or more characters
  that are neither ASCII digits nor underscores, eight digits, an underscore, six digits
  and a remainder that \<open>(.*)$\<close> accepts. For every such stem the parser returns a record
  whose date and time are exactly the two digit groups; the time is present, \<open>keep_id\<close>
  is absent and the kind is B, whatever the remainder is.
\<close>

theorem grammar_b_date_time:
  assumes "sp \<noteq> []" "list_all no_digit_no_underscore sp"
    and "length date = 8" "list_all (re_digit U) date"
    and "length time = 6" "list_all (re_digit U) time"
    and "rest_group rest = Some r"
  shows "\<exists>p. parse_tsukamoto_style U (sp @ date @ asc ''_'' @ time @ rest) = Some p
           \<and> speaker p = sp \<and> date_yyyymmdd p = date \<and> time_hhmmss p = Some time
           \<and> keep_id p = None \<and> source_kind p = asc ''B''"
  using match_tsukamoto_groups [OF assms]
  by (simp add: parse_tsukamoto_style_def Let_def)

text \<open>The stem of the first scenario of the specification.\<close>

theorem grammar_b_date_time_witness:
  "\<exists>p. parse_tsukamoto_style python_unicode
          ([0x585A, 0x672C] @ asc ''20251012'' @ asc ''_'' @ asc ''121402''
             @ [0x516C, 0x5712, 0x5185, 0x6563, 0x7B56, 0x5F, 0x91CE, 0x7403]) = Some p
       \<and> speaker p = [0x585A, 0x672C] \<and> date_yyyymmdd p = asc ''20251012''
       \<and> time_hhmmss p = Some (asc ''121402'') \<and> keep_id p = None
       \<and> source_kind p = asc ''B''"
  using grammar_b_date_time [where sp = "[0x585A, 0x672C]" and date = "asc ''20251012''"
      and time = "asc ''121402''" and U = python_unicode
      and rest = "[0x516C, 0x5712, 0x5185, 0x6563, 0x7B56, 0x5F, 0x91CE, 0x7403]"
      and r = "[0x516C, 0x5712, 0x5185, 0x6563, 0x7B56, 0x5F, 0x91CE, 0x7403]"]
  by (simp add: asc_def no_digit_no_underscore_def re_digit_def ascii_digit_def rest_group_def)

lemma after_speaker_a_match:
  assumes "length id1 = 4" "list_all (re_digit U) id1"
    and "length id2 = 3" "list_all (re_digit U) id2"
  shows "after_speaker_a U (asc ''_WAV_'' @ id1 @ asc ''_'' @ id2 @ rest)
           = map_option (\<lambda>r. (id1, id2, r)) (rest_group rest)"
  using assms by (simp add: after_speaker_a_def asc_def)

lemma match_suzuki_groups:
  assumes sp: "sp \<noteq> []" "0x5F \<notin> set sp"
    and id1: "length id1 = 4" "list_all (re_digit U) id1"
    and id2: "length id2 = 3" "list_all (re_digit U) id2"
    and rest: "rest_group rest = Some r"
  shows "match_suzuki U (sp @ asc ''_WAV_'' @ id1 @ asc ''_'' @ id2 @ rest)
           = Some (sp, id1, id2, r)"
proof -
  let ?stem = "sp @ asc ''_WAV_'' @ id1 @ asc ''_'' @ id2 @ rest"
  let ?attempt = "\<lambda>k. map_option (\<lambda>g. (take k ?stem, g)) (after_speaker_a U (drop k ?stem))"
  have run: "takeWhile (\<lambda>c. c \<noteq> 0x5F) ?stem = sp"
    using sp(2) by (subst takeWhile_append2) (auto simp: asc_def)
  have here: "?attempt (length sp) = Some (sp, id1, id2, r)"
    using after_speaker_a_match [OF id1 id2, of rest] rest by simp
  have "longest_first (length sp) ?attempt = Some (sp, id1, id2, r)"
    using sp(1) here by (intro longest_first_unique [of "length sp"]) simp_all
  then show ?thesis by (simp only: match_suzuki_def run)
qed

text \<open>
  C8. A stem that matches the pattern of Grammar A is a speaker of one or more characters
  other than the underscore, the token \<open>_WAV_\<close>, four digits, an underscore, three digits
  and a remainder. For every such stem, with identifier retention the parser's \<open>keep_id\<close>
  is \<open>WAV\<close>, the first id padded with zeros to four characters, an underscore and the
  second id padded to three (the padding leaves both ids as they are); without retention
  \<open>keep_id\<close> is absent.
\<close>

theorem grammar_a_keep_id:
  assumes "sp \<noteq> []" "0x5F \<notin> set sp"
    and "length id1 = 4" "list_all (re_digit U) id1"
    and "length id2 = 3" "list_all (re_digit U) id2"
    and "rest_group rest = Some r"
  shows "\<exists>p. parse_suzuki_style U (sp @ asc ''_WAV_'' @ id1 @ asc ''_'' @ id2 @ rest)
                unknown_date keep = Some p
           \<and> keep_id p = (if keep then Some (asc ''WAV'' @ zfill 4 id1 @ asc ''_'' @ zfill 3 id2)
                          else None)
           \<and> zfill 4 id1 = id1 \<and> zfill 3 id2 = id2"
  using match_suzuki_groups [OF assms] assms(3,5)
  by (simp add: parse_suzuki_style_def Let_def zfill_def)

theorem grammar_a_keep_id_witness:
  "\<exists>p. parse_suzuki_style python_unicode
          ([0x9234, 0x6728] @ asc ''_WAV_'' @ asc ''0018'' @ asc ''_'' @ asc ''001''
             @ [0x2E, 0x5F, 0x6EDD, 0x5F, 0x31]) (asc ''UnknownDate'') True = Some p
       \<and> keep_id p = Some (asc ''WAV0018_001'')"
  using grammar_a_keep_id [where sp = "[0x9234, 0x6728]" and ?id1.0 = "asc ''0018''"
      and ?id2.0 = "asc ''001''" and U = python_unicode
      and rest = "[0x2E, 0x5F, 0x6EDD, 0x5F, 0x31]" and r = "[0x2E, 0x5F, 0x6EDD, 0x5F, 0x31]"
      and keep = True and unknown_date = "asc ''UnknownDate''"]
  by (auto simp: asc_def re_digit_def ascii_digit_def rest_group_def)

text \<open>
  C9. The file name of the second scenario, U+9234 U+6728 \<open>_WAV_0018_001._\<close> U+6EDD
  \<open>_1.mp3\<close>, parsed with identifier retention and the placeholder \<open>UnknownDate\<close>: the
  speaker is U+9234 U+6728, the date is the placeholder, \<open>keep_id\<close> is \<open>WAV0018_001\<close>,
  the descriptor is U+6EDD \<open>_1\<close>, which contains U+6EDD ("waterfall"), and the classifier
  maps this descriptor to \<open>suigou_no_taki\<close>.
\<close>

definition suzuki_file :: ustr where
  "suzuki_file =
     [0x9234, 0x6728, 0x5F, 0x57, 0x41, 0x56, 0x5F, 0x30, 0x30, 0x31, 0x38, 0x5F, 0x30, 0x30,
      0x31, 0x2E, 0x5F, 0x6EDD, 0x5F, 0x31, 0x2E, 0x6D, 0x70, 0x33]"

lemma suzuki_file_parsed:
  "parse_audio_name python_unicode suzuki_file (asc ''UnknownDate'') True
     = Some \<lparr>speaker = [0x9234, 0x6728], date_yyyymmdd = asc ''UnknownDate'',
              time_hhmmss = None, descriptor = [0x6EDD, 0x5F, 0x31],
              source_kind = asc ''A'', keep_id = Some (asc ''WAV0018_001'')\<rparr>"
  by (simp add: parse_audio_name_def suzuki_file_def Path_def path_suffix_def path_stem_def
       path_name_def rfind_dot_def lower_def nfc_def python_unicode_def ascii_lower_def asc_def
       parse_tsukamoto_style_def match_tsukamoto_def parse_suzuki_style_def match_suzuki_def
       after_speaker_a_def after_speaker_b_def rest_group_def re_digit_def ascii_digit_def
       no_digit_no_underscore_def clean_separators_def strip_def zfill_def Let_def)

lemma taki_classified:
  "guess_spot_title python_unicode [0x6EDD, 0x5F, 0x31] = Some suigou_no_taki"
  by (simp add: guess_spot_title_def nfc_def lower_def python_unicode_def
        KEYWORD_TO_SPOT_TITLE_def ascii_lower_def)

theorem suzuki_scenario:
  "\<exists>p. parse_audio_name python_unicode suzuki_file (asc ''UnknownDate'') True = Some p
       \<and> speaker p = [0x9234, 0x6728]
       \<and> date_yyyymmdd p = asc ''UnknownDate''
       \<and> keep_id p = Some (asc ''WAV0018_001'')
       \<and> py_in [0x6EDD] (descriptor p)
       \<and> guess_spot_title python_unicode (descriptor p) = Some suigou_no_taki"
  using suzuki_file_parsed taki_classified by simp

section \<open>Properties of the rename planner\<close>

lemma with_name_Inr:
  "with_name p nm = Inr d \<Longrightarrow> d = butlast p @ [nm] \<and> p \<noteq> []"
  by (auto simp: with_name_def path_name_def split: if_splits)

lemma build_new_filename_mp3:
  "\<exists>j. j \<noteq> [] \<and> build_new_filename U parsed romanize_names = j @ asc ''.mp3''"
  by (simp add: build_new_filename_def Let_def) (simp add: asc_def)

lemma rfind_dot_mp3: "rfind_dot (j @ asc ''.mp3'') = Some (length j)"
  by (simp add: rfind_dot_def asc_def)

lemma path_name_snoc: "path_name (dir @ [nm]) = nm"
  by (simp add: path_name_def)

lemma path_suffix_mp3: "j \<noteq> [] \<Longrightarrow> path_suffix (dir @ [j @ asc ''.mp3'']) = asc ''.mp3''"
  by (simp add: path_suffix_def path_name_snoc rfind_dot_mp3 Let_def) (simp add: asc_def)

lemma path_stem_mp3: "j \<noteq> [] \<Longrightarrow> path_stem (dir @ [j @ asc ''.mp3'']) = j"
  by (simp add: path_stem_def path_name_snoc rfind_dot_mp3 Let_def) (simp add: asc_def)

lemma is_file_exists: "is_file fs p \<Longrightarrow> path_exists fs p"
  by (auto simp: is_file_def path_exists_def list_ex_iff)


lemma collect_items_Cons:
  assumes "collect_items U fs targets romanize_names unknown_date keep (entry # entries) = Inr items"
  shows "collect_items U fs targets romanize_names unknown_date keep entries = Inr items
       \<or> (\<exists>parsed d others. is_file fs entry
             \<and> with_name entry (build_new_filename U parsed romanize_names) = Inr d
             \<and> collect_items U fs targets romanize_names unknown_date keep entries = Inr others
             \<and> items = \<lparr>src = entry, dst = d\<rparr> # others)"
  using assms
  by (simp add: Let_def split: if_splits option.splits sum.splits) blast


text \<open>What the first loop of \<open>plan_renames\<close> produces for a file.\<close>

definition candidate :: "filesystem \<Rightarrow> RenamePlanItem \<Rightarrow> bool" where
  "candidate fs it =
     (is_file fs (src it) \<and> src it \<noteq> []
      \<and> (\<exists>j. j \<noteq> [] \<and> dst it = butlast (src it) @ [j @ asc ''.mp3'']))"

lemma collect_items_candidates:
  "collect_items U fs targets romanize_names unknown_date keep entries = Inr items
     \<Longrightarrow> list_all (candidate fs) items \<and> set (map src items) \<subseteq> set entries"
proof (induction entries arbitrary: items)
  case Nil
  then show ?case by simp
next
  case (Cons entry entries)
  from collect_items_Cons [OF Cons.prems] show ?case
  proof
    assume "collect_items U fs targets romanize_names unknown_date keep entries = Inr items"
    from Cons.IH [OF this] show ?thesis by auto
  next
    assume "\<exists>parsed d others. is_file fs entry
             \<and> with_name entry (build_new_filename U parsed romanize_names) = Inr d
             \<and> collect_items U fs targets romanize_names unknown_date keep entries = Inr others
             \<and> items = \<lparr>src = entry, dst = d\<rparr> # others"
    then obtain parsed d others where f: "is_file fs entry"
      and w: "with_name entry (build_new_filename U parsed romanize_names) = Inr d"
      and c: "collect_items U fs targets romanize_names unknown_date keep entries = Inr others"
      and i: "items = \<lparr>src = entry, dst = d\<rparr> # others"
      by blast
    from build_new_filename_mp3 [of U parsed romanize_names] obtain j
      where j: "j \<noteq> []" "build_new_filename U parsed romanize_names = j @ asc ''.mp3''"
      by blast
    from with_name_Inr [OF w] j have "candidate fs \<lparr>src = entry, dst = d\<rparr>"
      using f by (auto simp: candidate_def)
    with Cons.IH [OF c] i show ?thesis by auto
  qed
qed

lemma resolve_dst_result:
  "resolve_dst fs used base sfx i d = Inr d'
     \<Longrightarrow> \<not> path_exists fs d' \<and> d' \<notin> set used
         \<and> (d' = d \<or> (\<exists>k. d' = butlast d @ [dup_name base sfx k]))"
proof (induction fs used base sfx i d rule: resolve_dst.induct)
  case (1 fs used base sfx i d)
  show ?case
  proof (cases "path_exists fs d \<or> d \<in> set used")
    case False
    with "1.prems" show ?thesis by (simp add: resolve_dst.simps [of fs used base sfx i d])
  next
    case True
    with "1.prems" obtain d1 where w: "with_name d (dup_name base sfx i) = Inr d1"
      and r: "resolve_dst fs used base sfx (i + 1) d1 = Inr d'"
      by (auto simp: resolve_dst.simps [of fs used base sfx i d] split: sum.splits)
    from w have d1: "d1 = butlast d @ [dup_name base sfx i]" by (simp add: with_name_Inr)
    from "1.IH" [OF True w r] d1 show ?thesis by auto
  qed
qed

text \<open>How the second loop changes an item.\<close>

definition resolved_from :: "RenamePlanItem \<Rightarrow> RenamePlanItem \<Rightarrow> bool" where
  "resolved_from it r =
     (src r = src it
      \<and> (dst r = dst it
         \<or> (\<exists>k. dst r = butlast (dst it)
                     @ [dup_name (path_stem (dst it)) (path_suffix (dst it)) k])))"

lemma resolve_collisions_result:
  "resolve_collisions fs used items = Inr rs
     \<Longrightarrow> list_all2 resolved_from items rs
         \<and> distinct (map dst rs)
         \<and> (\<forall>r \<in> set rs. \<not> path_exists fs (dst r) \<and> dst r \<notin> set used)"
proof (induction items arbitrary: used rs)
  case Nil
  then show ?case by simp
next
  case (Cons item items)
  from Cons.prems obtain d rest
    where d: "resolve_dst fs used (path_stem (dst item)) (path_suffix (dst item)) 1 (dst item) = Inr d"
      and r: "resolve_collisions fs (d # used) items = Inr rest"
      and rs: "rs = \<lparr>src = src item, dst = d\<rparr> # rest"
    by (auto split: sum.splits)
  from resolve_dst_result [OF d] Cons.IH [OF r] rs show ?case
    by (auto simp: resolved_from_def)
qed


lemma list_all2_right_member:
  "list_all2 R xs ys \<Longrightarrow> y \<in> set ys \<Longrightarrow> \<exists>x \<in> set xs. R x y"
  by (induction rule: list_all2_induct) auto

lemma plan_renames_Inr:
  assumes "plan_renames U fs audio_dir targets romanize_names unknown_date keep = Inr plan"
  shows "\<exists>items rs.
           collect_items U fs targets romanize_names unknown_date keep
             (sort (iterdir fs audio_dir)) = Inr items
         \<and> resolve_collisions fs [] items = Inr rs
         \<and> plan = filter (\<lambda>it. path_name (src it) \<noteq> path_name (dst it)) rs"
  using assms by (auto simp: plan_renames_def split: sum.splits)

lemma iterdir_parent: "p \<in> set (iterdir fs dir) \<Longrightarrow> butlast p = dir \<and> p \<noteq> []"
  by (auto simp: iterdir_def)

lemma plan_renames_destination:
  assumes "plan_renames U fs audio_dir targets romanize_names unknown_date keep = Inr plan"
    and "it \<in> set plan"
  shows "\<exists>nm. dst it = audio_dir @ [nm]"
proof -
  from plan_renames_Inr [OF assms(1)] obtain items rs
    where c: "collect_items U fs targets romanize_names unknown_date keep
                (sort (iterdir fs audio_dir)) = Inr items"
      and r: "resolve_collisions fs [] items = Inr rs"
      and p: "plan = filter (\<lambda>it. path_name (src it) \<noteq> path_name (dst it)) rs"
    by blast
  from assms(2) p have mem: "it \<in> set rs" by simp
  from resolve_collisions_result [OF r] have la: "list_all2 resolved_from items rs"
    by (rule conjunct1)
  from list_all2_right_member [OF la mem] obtain c0
    where c0: "c0 \<in> set items" "resolved_from c0 it"
    by blast
  from collect_items_candidates [OF c] c0(1)
  have cand: "candidate fs c0" and "src c0 \<in> set (iterdir fs audio_dir)"
    by (auto simp: list_all_iff)
  then have dir: "butlast (src c0) = audio_dir" using iterdir_parent by blast
  from cand obtain j where j: "dst c0 = butlast (src c0) @ [j @ asc ''.mp3'']"
    by (auto simp: candidate_def)
  have par: "butlast (dst c0) = audio_dir"
    using j dir by (simp only: butlast_snoc)
  from c0(2) consider "dst it = dst c0"
    | nm where "dst it = butlast (dst c0) @ [nm]"
    unfolding resolved_from_def by blast
  then show ?thesis
  proof cases
    case 1
    with j dir show ?thesis by simp
  next
    case 2
    with par show ?thesis by simp
  qed
qed

text \<open>
  The destinations of a plan are different paths of one directory, so they have different
  file names.
\<close>

lemma plan_renames_distinct_names:
  assumes "plan_renames U fs audio_dir targets romanize_names unknown_date keep = Inr plan"
  shows "distinct (map (path_name \<circ> dst) plan)"
proof -
  from plan_renames_Inr [OF assms] obtain items rs
    where r: "resolve_collisions fs [] items = Inr rs"
      and p: "plan = filter (\<lambda>it. path_name (src it) \<noteq> path_name (dst it)) rs"
    by blast
  from resolve_collisions_result [OF r] have "distinct (map dst rs)" by simp
  with p have d: "distinct (map dst plan)" by (simp add: distinct_map_filter)
  have "inj_on path_name (set (map dst plan))"
  proof (rule inj_onI)
    fix a b
    assume a: "a \<in> set (map dst plan)" and b: "b \<in> set (map dst plan)"
      and e: "path_name a = path_name b"
    from a obtain x where "x \<in> set plan" "a = dst x" by auto
    with plan_renames_destination [OF assms] obtain n where n: "a = audio_dir @ [n]" by blast
    from b obtain y where "y \<in> set plan" "b = dst y" by auto
    with plan_renames_destination [OF assms] obtain m where m: "b = audio_dir @ [m]" by blast
    from e n m show "a = b" by (simp add: path_name_snoc)
  qed
  with d have "distinct (map path_name (map dst plan))" by (simp only: distinct_map simp_thms)
  then show ?thesis by simp
qed

text \<open>
  C10. In every plan that \<open>plan_renames\<close> returns, every item's destination has the
  parent directory of its source, which is the input directory, and the destination's
  file name ends with \<open>.mp3\<close>.
\<close>

theorem plan_renames_stays_in_directory:
  assumes "plan_renames U fs audio_dir targets romanize_names unknown_date keep = Inr plan"
    and "it \<in> set plan"
  shows "path_parent (dst it) = path_parent (src it)
       \<and> path_parent (src it) = audio_dir
       \<and> suffix (asc ''.mp3'') (path_name (dst it))"
proof -
  from plan_renames_Inr [OF assms(1)] obtain items rs
    where c: "collect_items U fs targets romanize_names unknown_date keep
                (sort (iterdir fs audio_dir)) = Inr items"
      and r: "resolve_collisions fs [] items = Inr rs"
      and p: "plan = filter (\<lambda>it. path_name (src it) \<noteq> path_name (dst it)) rs"
    by blast
  from assms(2) p have mem: "it \<in> set rs" by simp
  from resolve_collisions_result [OF r] have la: "list_all2 resolved_from items rs"
    by (rule conjunct1)
  from list_all2_right_member [OF la mem] obtain c0
    where c0: "c0 \<in> set items" "resolved_from c0 it"
    by blast
  from collect_items_candidates [OF c] c0(1)
  have cand: "candidate fs c0" and "src c0 \<in> set (iterdir fs audio_dir)"
    by (auto simp: list_all_iff)
  then have dir: "butlast (src c0) = audio_dir" using iterdir_parent by blast
  from cand obtain j where j: "j \<noteq> []" "dst c0 = butlast (src c0) @ [j @ asc ''.mp3'']"
    by (auto simp: candidate_def)
  from c0(2) have s: "src it = src c0" by (simp add: resolved_from_def)
  have stem: "path_stem (dst c0) = j" and sfx: "path_suffix (dst c0) = asc ''.mp3''"
    using j path_stem_mp3 [of j "butlast (src c0)"] path_suffix_mp3 [of j "butlast (src c0)"]
    by simp_all
  have par: "butlast (dst c0) = butlast (src c0)"
    using j(2) by (simp only: butlast_snoc)
  from c0(2) consider "dst it = dst c0"
    | k where "dst it = butlast (src c0) @ [dup_name j (asc ''.mp3'') k]"
    unfolding resolved_from_def stem sfx par by blast
  then consider "dst it = butlast (src c0) @ [j @ asc ''.mp3'']"
    | k where "dst it = butlast (src c0) @ [dup_name j (asc ''.mp3'') k]"
    using j(2) by metis
  then show ?thesis
  proof cases
    case 1
    have "suffix (asc ''.mp3'') (j @ asc ''.mp3'')" by (rule suffixI) (rule refl)
    with 1 s dir show ?thesis
      by (simp only: path_parent_def path_name_snoc butlast_snoc simp_thms)
  next
    case 2
    have "dup_name j (asc ''.mp3'') k = (j @ asc ''_dup'' @ decimal k) @ asc ''.mp3''"
      by (simp only: dup_name_def append_assoc)
    then have "suffix (asc ''.mp3'') (dup_name j (asc ''.mp3'') k)"
      by (intro suffixI)
    with 2 s dir show ?thesis
      by (simp only: path_parent_def path_name_snoc butlast_snoc simp_thms)
  qed
qed

text \<open>
  C3 (as amended). In every plan that \<open>plan_renames\<close> returns, no two items have the same
  destination, and no destination is a path that exists when the plan is made, where a
  path exists as \<open>Path.exists()\<close> reports it: the test of the collision loop, which
  follows symbolic links. In particular no destination is an existing path that is not
  the source of an item. A symbolic link whose target is missing has a directory entry
  and does not exist in this sense; it is the only kind of directory entry that a
  destination can coincide with.
\<close>

theorem plan_renames_collision_free:
  assumes "plan_renames U fs audio_dir targets romanize_names unknown_date keep = Inr plan"
  shows "distinct (map dst plan)
       \<and> (\<forall>it \<in> set plan. \<not> path_exists fs (dst it))
       \<and> (\<forall>it \<in> set plan. \<forall>p. path_exists fs p \<and> p \<notin> src ` set plan \<longrightarrow> dst it \<noteq> p)
       \<and> (\<forall>it \<in> set plan. \<forall>k. (dst it, k) \<in> set fs \<longrightarrow> k = BrokenLink)"
proof -
  from plan_renames_Inr [OF assms] obtain items rs
    where r: "resolve_collisions fs [] items = Inr rs"
      and p: "plan = filter (\<lambda>it. path_name (src it) \<noteq> path_name (dst it)) rs"
    by blast
  from resolve_collisions_result [OF r]
  have d: "distinct (map dst rs)" and e: "\<forall>r \<in> set rs. \<not> path_exists fs (dst r)"
    by auto
  from d p have "distinct (map dst plan)" by (simp add: distinct_map_filter)
  moreover from e p have free: "\<forall>it \<in> set plan. \<not> path_exists fs (dst it)" by simp
  moreover have "\<forall>it \<in> set plan. \<forall>k. (dst it, k) \<in> set fs \<longrightarrow> k = BrokenLink"
    using free by (auto simp: path_exists_def list_ex_iff)
  ultimately show ?thesis by blast
qed


section \<open>The rename planner on concrete directories\<close>

definition audio :: path where
  "audio = [asc ''audio'']"

definition suzuki :: ustr where
  "suzuki = [0x9234, 0x6728]"

definition renamed_suzuki_file :: ustr where
  "renamed_suzuki_file =
     suzuki @ asc ''_UnknownDate_WAV0018_001_'' @ [0x6EDD] @ asc ''_1.mp3''"

text \<open>
  A directory that holds the file of the second scenario and, already, a file with the
  name the planner computes for it.
\<close>

definition example_fs :: filesystem where
  "example_fs =
     [(audio @ [suzuki_file], RegularFile), (audio @ [renamed_suzuki_file], RegularFile)]"

text \<open>
  A directory with two files whose new names coincide: U+9234 U+6728 \<open>_WAV_0018_001._\<close>
  U+6EDD \<open>.mp3\<close> and the same name without the dot. The directory also holds a symbolic
  link with a missing target under the new name, and a subdirectory under the first
  \<open>_dup\<close> name.
\<close>

definition twin_fs :: filesystem where
  "twin_fs =
     [(audio @ [suzuki @ asc ''_WAV_0018_001._'' @ [0x6EDD] @ asc ''.mp3''], RegularFile),
      (audio @ [suzuki @ asc ''_WAV_0018_001_'' @ [0x6EDD] @ asc ''.mp3''], RegularFile),
      (audio @ [suzuki @ asc ''_UnknownDate_WAV0018_001_'' @ [0x6EDD] @ asc ''.mp3''],
       BrokenLink),
      (audio @ [suzuki @ asc ''_UnknownDate_WAV0018_001_'' @ [0x6EDD] @ asc ''_dup1.mp3''],
       OtherKind)]"

text \<open>
  A directory that holds the file of the second scenario and a symbolic link with a
  missing target, named as the planner names the file.
\<close>

definition dangling_fs :: filesystem where
  "dangling_fs =
     [(audio @ [suzuki_file], RegularFile), (audio @ [renamed_suzuki_file], BrokenLink)]"

text \<open>
  A file whose name the builder reproduces when the placeholder date is \<open>WAV_0018_001\<close>
  and the identifier is not kept: U+9234 U+6728 \<open>_WAV_0018_001_\<close> U+6EDD \<open>.mp3\<close>.
\<close>

definition loop_file :: ustr where
  "loop_file = suzuki @ asc ''_WAV_0018_001_'' @ [0x6EDD] @ asc ''.mp3''"

lemmas eval_defs =
  parse_audio_name_def Path_def path_suffix_def path_stem_def
  path_name_def rfind_dot_def lower_def nfc_def python_unicode_def ascii_lower_def asc_def
  parse_tsukamoto_style_def match_tsukamoto_def parse_suzuki_style_def match_suzuki_def
  after_speaker_a_def after_speaker_b_def rest_group_def re_digit_def ascii_digit_def
  no_digit_no_underscore_def clean_separators_def strip_def zfill_def Let_def

lemmas plan_eval_defs =
  plan_renames_def iterdir_def audio_def suzuki_def is_file_def path_exists_def with_name_def
  build_new_filename_def if_truthy_def resolve_dst.simps dup_name_def decimal.simps

lemma example_plan:
  "plan_renames python_unicode example_fs audio {suzuki} False (asc ''UnknownDate'') True
     = Inr [\<lparr>src = audio @ [suzuki_file],
             dst = audio @ [suzuki @ asc ''_UnknownDate_WAV0018_001_'' @ [0x6EDD]
                              @ asc ''_1_dup1.mp3'']\<rparr>]"
  by (simp add: example_fs_def renamed_suzuki_file_def suzuki_file_def plan_eval_defs eval_defs)

lemma twin_plan:
  "plan_renames python_unicode twin_fs audio {suzuki} False (asc ''UnknownDate'') True
     = Inr [\<lparr>src = audio @ [suzuki @ asc ''_WAV_0018_001._'' @ [0x6EDD] @ asc ''.mp3''],
             dst = audio @ [suzuki @ asc ''_UnknownDate_WAV0018_001_'' @ [0x6EDD]
                              @ asc ''.mp3'']\<rparr>,
            \<lparr>src = audio @ [suzuki @ asc ''_WAV_0018_001_'' @ [0x6EDD] @ asc ''.mp3''],
             dst = audio @ [suzuki @ asc ''_UnknownDate_WAV0018_001_'' @ [0x6EDD]
                              @ asc ''_dup2.mp3'']\<rparr>]"
  by (simp add: twin_fs_def plan_eval_defs eval_defs)

lemma dangling_plan:
  "plan_renames python_unicode dangling_fs audio {suzuki} False (asc ''UnknownDate'') True
     = Inr [\<lparr>src = audio @ [suzuki_file], dst = audio @ [renamed_suzuki_file]\<rparr>]"
  by (simp add: dangling_fs_def renamed_suzuki_file_def suzuki_file_def plan_eval_defs eval_defs)

lemma dangling_listing:
  "audio @ [renamed_suzuki_file] \<in> set (iterdir dangling_fs audio)"
  by (simp add: dangling_fs_def iterdir_def)

lemma dangling_not_source: "audio @ [renamed_suzuki_file] \<noteq> audio @ [suzuki_file]"
  by (simp add: renamed_suzuki_file_def suzuki_file_def suzuki_def asc_def)

theorem plan_renames_stays_in_directory_witness:
  "plan_renames python_unicode example_fs audio {suzuki} False (asc ''UnknownDate'') True
     = Inr [\<lparr>src = audio @ [suzuki_file],
             dst = audio @ [suzuki @ asc ''_UnknownDate_WAV0018_001_'' @ [0x6EDD]
                              @ asc ''_1_dup1.mp3'']\<rparr>]
   \<and> path_parent (audio @ [suzuki @ asc ''_UnknownDate_WAV0018_001_'' @ [0x6EDD]
                              @ asc ''_1_dup1.mp3'']) = audio
   \<and> suffix (asc ''.mp3'')
        (path_name (audio @ [suzuki @ asc ''_UnknownDate_WAV0018_001_'' @ [0x6EDD]
                              @ asc ''_1_dup1.mp3'']))"
  using plan_renames_stays_in_directory [OF example_plan] example_plan by simp

text \<open>
  In the directory \<open>twin_fs\<close> the first file takes the name of the symbolic link with the
  missing target, the second passes over that name, now used, and over the subdirectory,
  which exists, and takes the second \<open>_dup\<close> name.
\<close>

theorem plan_renames_collision_free_witness:
  "plan_renames python_unicode twin_fs audio {suzuki} False (asc ''UnknownDate'') True
     = Inr [\<lparr>src = audio @ [suzuki @ asc ''_WAV_0018_001._'' @ [0x6EDD] @ asc ''.mp3''],
             dst = audio @ [suzuki @ asc ''_UnknownDate_WAV0018_001_'' @ [0x6EDD]
                              @ asc ''.mp3'']\<rparr>,
            \<lparr>src = audio @ [suzuki @ asc ''_WAV_0018_001_'' @ [0x6EDD] @ asc ''.mp3''],
             dst = audio @ [suzuki @ asc ''_UnknownDate_WAV0018_001_'' @ [0x6EDD]
                              @ asc ''_dup2.mp3'']\<rparr>]
   \<and> distinct
       [audio @ [suzuki @ asc ''_UnknownDate_WAV0018_001_'' @ [0x6EDD] @ asc ''.mp3''],
        audio @ [suzuki @ asc ''_UnknownDate_WAV0018_001_'' @ [0x6EDD] @ asc ''_dup2.mp3'']]
   \<and> \<not> path_exists twin_fs
         (audio @ [suzuki @ asc ''_UnknownDate_WAV0018_001_'' @ [0x6EDD] @ asc ''.mp3''])
   \<and> \<not> path_exists twin_fs
         (audio @ [suzuki @ asc ''_UnknownDate_WAV0018_001_'' @ [0x6EDD] @ asc ''_dup2.mp3''])
   \<and> map snd (filter (\<lambda>(q, k). q = audio @ [suzuki @ asc ''_UnknownDate_WAV0018_001_''
                                               @ [0x6EDD] @ asc ''.mp3'']) twin_fs)
       = [BrokenLink]"
proof -
  have "map snd (filter (\<lambda>(q, k). q = audio @ [suzuki @ asc ''_UnknownDate_WAV0018_001_''
                                               @ [0x6EDD] @ asc ''.mp3'']) twin_fs)
       = [BrokenLink]"
    by (simp add: twin_fs_def audio_def suzuki_def asc_def)
  with plan_renames_collision_free [OF twin_plan] twin_plan show ?thesis by simp
qed

text \<open>
  C3 as it is stated fails: it protects every entry of the directory listing that is not
  a source. In the directory \<open>dangling_fs\<close> the name the planner computes for the file
  is the name of a symbolic link with a missing target. \<open>Path.exists()\<close> is false for
  the link, so the collision loop keeps the name: the destination of the plan's one item
  is a path of the listing, and it is not the source of an item.
\<close>

theorem destination_is_dangling_link_counterexample:
  "\<not> (\<forall>fs plan.
         plan_renames python_unicode fs audio {suzuki} False (asc ''UnknownDate'') True = Inr plan
         \<longrightarrow> (\<forall>it \<in> set plan. \<forall>p \<in> set (iterdir fs audio).
                 p \<notin> src ` set plan \<longrightarrow> dst it \<noteq> p))"
proof
  assume "\<forall>fs plan.
         plan_renames python_unicode fs audio {suzuki} False (asc ''UnknownDate'') True = Inr plan
         \<longrightarrow> (\<forall>it \<in> set plan. \<forall>p \<in> set (iterdir fs audio).
                 p \<notin> src ` set plan \<longrightarrow> dst it \<noteq> p)"
  from this [rule_format, OF dangling_plan _ dangling_listing]
  show False using dangling_not_source by simp
qed

lemma loop_file_candidate:
  "map_option (\<lambda>parsed. build_new_filename python_unicode parsed False)
     (parse_audio_name python_unicode loop_file (asc ''WAV_0018_001'') False) = Some loop_file"
  by (simp add: loop_file_def suzuki_def build_new_filename_def if_truthy_def eval_defs)

lemma loop_plan:
  "plan_renames python_unicode [(audio @ [loop_file], RegularFile)] audio {suzuki} False
       (asc ''WAV_0018_001'') False
     = Inr [\<lparr>src = audio @ [loop_file],
             dst = audio @ [suzuki @ asc ''_WAV_0018_001_'' @ [0x6EDD] @ asc ''_dup1.mp3'']\<rparr>]"
  by (simp add: loop_file_def plan_eval_defs eval_defs)

text \<open>
  The last step of \<open>plan_renames\<close> removes the items whose destination has the name of
  the source. It never removes one: the source of an item exists, so the collision loop
  has already moved a destination equal to the source to a \<open>_dup\<close> name.
\<close>

lemma noop_filter_removes_nothing:
  assumes "plan_renames U fs audio_dir targets romanize_names unknown_date keep = Inr plan"
  shows "\<exists>items. collect_items U fs targets romanize_names unknown_date keep
                    (sort (iterdir fs audio_dir)) = Inr items
               \<and> resolve_collisions fs [] items = Inr plan"
proof -
  from plan_renames_Inr [OF assms] obtain items rs
    where c: "collect_items U fs targets romanize_names unknown_date keep
                (sort (iterdir fs audio_dir)) = Inr items"
      and r: "resolve_collisions fs [] items = Inr rs"
      and p: "plan = filter (\<lambda>it. path_name (src it) \<noteq> path_name (dst it)) rs"
    by blast
  have "path_name (src it) \<noteq> path_name (dst it)" if mem: "it \<in> set rs" for it
  proof
    assume same: "path_name (src it) = path_name (dst it)"
    from resolve_collisions_result [OF r] have la: "list_all2 resolved_from items rs"
      and free: "\<not> path_exists fs (dst it)"
      using mem by auto
    from list_all2_right_member [OF la mem] obtain c0
      where c0: "c0 \<in> set items" "resolved_from c0 it"
      by blast
    from collect_items_candidates [OF c] c0(1) have cand: "candidate fs c0"
      by (auto simp: list_all_iff)
    from cand obtain j where j: "src c0 \<noteq> []" "dst c0 = butlast (src c0) @ [j @ asc ''.mp3'']"
      by (auto simp: candidate_def)
    from c0(2) have s: "src it = src c0" by (simp add: resolved_from_def)
    from c0(2) j(2) obtain nm where nm: "dst it = butlast (src c0) @ [nm]"
      by (auto simp: resolved_from_def)
    from same s nm j(1) have "last (src c0) = nm"
      by (simp add: path_name_def)
    with j(1) nm s have "dst it = src it" by (metis append_butlast_last_id)
    moreover from cand s have "path_exists fs (src it)"
      by (simp add: candidate_def is_file_exists)
    ultimately show False using free by simp
  qed
  then have "filter (\<lambda>it. path_name (src it) \<noteq> path_name (dst it)) rs = rs"
    by (simp add: filter_id_conv)
  with c r p show ?thesis by auto
qed

text \<open>
  C2 fails on the code. The directory \<open>audio\<close> holds the one file \<open>loop_file\<close>; with the
  placeholder date \<open>WAV_0018_001\<close> and without identifier retention the builder computes
  for it the name it already has. The file is in the plan all the same, renamed to
  \<open>..._dup1.mp3\<close>.
\<close>

theorem noop_candidate_is_renamed_to_dup:
  "map_option (\<lambda>parsed. build_new_filename python_unicode parsed False)
     (parse_audio_name python_unicode loop_file (asc ''WAV_0018_001'') False) = Some loop_file
   \<and> plan_renames python_unicode [(audio @ [loop_file], RegularFile)] audio {suzuki} False
         (asc ''WAV_0018_001'') False
       = Inr [\<lparr>src = audio @ [loop_file],
               dst = audio @ [suzuki @ asc ''_WAV_0018_001_'' @ [0x6EDD]
                                @ asc ''_dup1.mp3'']\<rparr>]"
  using loop_file_candidate loop_plan by simp

section \<open>Properties of the assignment planner\<close>

text \<open>Where \<open>assign_track\<close> puts a track, if anywhere.\<close>

definition placement ::
  "unicode \<Rightarrow> (ustr \<Rightarrow> spot option) \<Rightarrow> bool \<Rightarrow> ParsedAudioName \<Rightarrow> path \<Rightarrow> (ustr \<times> track) option" where
  "placement U lookup romanize_names parsed f =
     (case guess_spot_title U (descriptor parsed) of
        None \<Rightarrow> None
      | Some spot_title \<Rightarrow>
          (case (if spot_title = [] then None else lookup spot_title) of
             None \<Rightarrow> None
           | Some spot \<Rightarrow>
               if list_ex (\<lambda>t. track_file t = Some (asc ''audio/'' @ path_name f))
                    (playlist_or_empty spot)
               then None
               else Some (spot_title,
                          \<lparr>track_name = build_track_name (speaker parsed) (descriptor parsed)
                                          romanize_names,
                           track_file = Some (asc ''audio/'' @ path_name f)\<rparr>)))"

lemma assign_track_additions:
  "fst (assign_track U tts romanize_names parsed f acc) =
     (case placement U (map_of tts) romanize_names parsed f of
        None \<Rightarrow> fst acc
      | Some (t, new_track) \<Rightarrow> AList.map_entry t (\<lambda>tracks. tracks @ [new_track]) (fst acc))"
  by (cases acc) (simp add: assign_track_def placement_def Let_def split: option.splits)

text \<open>
  Both loops run \<open>assign_track\<close> over the files that pass their filters, in order.
\<close>

definition assign_all ::
  "unicode \<Rightarrow> (ustr \<times> spot) list \<Rightarrow> bool \<Rightarrow> (ParsedAudioName \<times> path) list
     \<Rightarrow> (ustr \<times> track list) list \<times> path list \<Rightarrow> (ustr \<times> track list) list \<times> path list" where
  "assign_all U tts romanize_names cs acc =
     foldl (\<lambda>acc (parsed, f). assign_track U tts romanize_names parsed f acc) acc cs"

definition file_candidates ::
  "unicode \<Rightarrow> ustr \<Rightarrow> bool \<Rightarrow> ustr set \<Rightarrow> path list \<Rightarrow> (ParsedAudioName \<times> path) list" where
  "file_candidates U unknown_date keep targets files =
     List.map_filter (\<lambda>f.
        if lower U (path_suffix f) = asc ''.mp3''
           \<and> takeWhile no_digit_no_underscore (nfc U (path_stem f)) \<noteq> []
           \<and> takeWhile no_digit_no_underscore (nfc U (path_stem f)) \<in> targets
        then map_option (\<lambda>parsed. (parsed, f)) (parse_audio_name U (path_name f) unknown_date keep)
        else None) files"

definition plan_candidates ::
  "unicode \<Rightarrow> ustr \<Rightarrow> bool \<Rightarrow> ustr set \<Rightarrow> RenamePlanItem list \<Rightarrow> (ParsedAudioName \<times> path) list" where
  "plan_candidates U unknown_date keep targets rename_plan =
     List.map_filter (\<lambda>it.
        case parse_audio_name U (path_name (src it)) unknown_date keep of
          None \<Rightarrow> None
        | Some parsed \<Rightarrow> if speaker parsed \<in> targets then Some (parsed, dst it) else None)
       rename_plan"

lemma assign_files_fold:
  "assign_files U tts unknown_date keep romanize_names targets files acc =
     assign_all U tts romanize_names (file_candidates U unknown_date keep targets files) acc"
  by (induction files arbitrary: acc)
     (simp_all add: assign_all_def file_candidates_def map_filter_simps Let_def split: option.splits)

lemma assign_plan_items_fold:
  "assign_plan_items U tts unknown_date keep romanize_names targets rename_plan acc =
     assign_all U tts romanize_names (plan_candidates U unknown_date keep targets rename_plan) acc"
  by (induction rename_plan arbitrary: acc)
     (simp_all add: assign_all_def plan_candidates_def map_filter_simps Let_def split: option.splits)

lemma map_fst_map_entry [simp]: "map fst (AList.map_entry k g al) = map fst al"
  by (induction al) auto

lemma map_entry_origin:
  "(t, ts) \<in> set (AList.map_entry k g al)
     \<Longrightarrow> (t, ts) \<in> set al \<or> (t = k \<and> (\<exists>ts0. (k, ts0) \<in> set al \<and> ts = g ts0))"
  by (induction al) (auto split: if_splits)

lemma map_entry_keeps:
  "(t, ts0) \<in> set al \<Longrightarrow> \<exists>ts. (t, ts) \<in> set (AList.map_entry k g al) \<and> (ts = ts0 \<or> ts = g ts0)"
  by (induction al) auto

lemma map_entry_hits:
  "k \<in> fst ` set al \<Longrightarrow> \<exists>ts0. (k, g ts0) \<in> set (AList.map_entry k g al)"
  by (induction al) auto


lemma assign_all_Cons:
  "assign_all U tts romanize_names ((parsed, f) # cs) acc =
     assign_all U tts romanize_names cs (assign_track U tts romanize_names parsed f acc)"
  by (simp add: assign_all_def)

lemma assign_all_Nil: "assign_all U tts romanize_names [] acc = acc"
  by (simp add: assign_all_def)

lemma assign_track_keys:
  "map fst (fst (assign_track U tts romanize_names parsed f acc)) = map fst (fst acc)"
  by (simp add: assign_track_additions split: option.splits)

lemma assign_all_keys:
  "map fst (fst (assign_all U tts romanize_names cs acc)) = map fst (fst acc)"
proof (induction cs arbitrary: acc)
  case Nil
  show ?case by (simp add: assign_all_Nil)
next
  case (Cons c cs)
  obtain parsed f where c: "c = (parsed, f)" by (cases c)
  show ?case
    unfolding c assign_all_Cons
    by (simp only: Cons.IH assign_track_keys)
qed

lemma assign_track_origin:
  assumes "(t, ts) \<in> set (fst (assign_track U tts romanize_names parsed f acc))" "x \<in> set ts"
  shows "(\<exists>ts0. (t, ts0) \<in> set (fst acc) \<and> x \<in> set ts0)
       \<or> placement U (map_of tts) romanize_names parsed f = Some (t, x)"
proof (cases "placement U (map_of tts) romanize_names parsed f")
  case None
  with assms show ?thesis by (auto simp: assign_track_additions)
next
  case (Some a)
  obtain k new_track where a: "a = (k, new_track)" by (cases a)
  from assms(1) Some a
  have "(t, ts) \<in> set (AList.map_entry k (\<lambda>tracks. tracks @ [new_track]) (fst acc))"
    by (simp add: assign_track_additions)
  from map_entry_origin [OF this] assms(2) Some a show ?thesis by auto
qed

lemma assign_all_origin:
  "(t, ts) \<in> set (fst (assign_all U tts romanize_names cs acc)) \<Longrightarrow> x \<in> set ts
     \<Longrightarrow> (\<exists>ts0. (t, ts0) \<in> set (fst acc) \<and> x \<in> set ts0)
         \<or> (\<exists>(parsed, f) \<in> set cs. placement U (map_of tts) romanize_names parsed f = Some (t, x))"
proof (induction cs arbitrary: acc)
  case Nil
  then show ?case by (auto simp: assign_all_Nil)
next
  case (Cons c cs)
  obtain parsed f where c: "c = (parsed, f)" by (cases c)
  from Cons.prems c
  have "(t, ts) \<in> set (fst (assign_all U tts romanize_names cs
                               (assign_track U tts romanize_names parsed f acc)))"
    by (simp add: assign_all_Cons)
  from Cons.IH [OF this Cons.prems(2)] show ?case
  proof
    assume "\<exists>ts0. (t, ts0) \<in> set (fst (assign_track U tts romanize_names parsed f acc))
              \<and> x \<in> set ts0"
    then obtain ts0 where "(t, ts0) \<in> set (fst (assign_track U tts romanize_names parsed f acc))"
      "x \<in> set ts0" by blast
    from assign_track_origin [OF this] c show ?thesis by auto
  next
    assume "\<exists>(parsed, f) \<in> set cs. placement U (map_of tts) romanize_names parsed f = Some (t, x)"
    then show ?thesis by auto
  qed
qed

lemma assign_track_keeps:
  assumes "(t, ts0) \<in> set (fst acc)" "x \<in> set ts0"
  shows "\<exists>ts. (t, ts) \<in> set (fst (assign_track U tts romanize_names parsed f acc)) \<and> x \<in> set ts"
proof (cases "placement U (map_of tts) romanize_names parsed f")
  case None
  with assms show ?thesis by (auto simp: assign_track_additions)
next
  case (Some a)
  obtain k new_track where a: "a = (k, new_track)" by (cases a)
  from map_entry_keeps [OF assms(1), of k "\<lambda>tracks. tracks @ [new_track]"] assms(2) Some a
  show ?thesis by (auto simp: assign_track_additions)
qed

lemma assign_all_keeps:
  "(t, ts0) \<in> set (fst acc) \<Longrightarrow> x \<in> set ts0
     \<Longrightarrow> \<exists>ts. (t, ts) \<in> set (fst (assign_all U tts romanize_names cs acc)) \<and> x \<in> set ts"
proof (induction cs arbitrary: acc ts0)
  case Nil
  then show ?case by (auto simp: assign_all_Nil)
next
  case (Cons c cs)
  obtain parsed f where c: "c = (parsed, f)" by (cases c)
  from assign_track_keeps [OF Cons.prems, of U tts romanize_names parsed f] obtain ts1
    where "(t, ts1) \<in> set (fst (assign_track U tts romanize_names parsed f acc))" "x \<in> set ts1"
    by blast
  from Cons.IH [OF this] c show ?case by (simp add: assign_all_Cons)
qed

lemma assign_track_places:
  assumes "placement U (map_of tts) romanize_names parsed f = Some (t, x)"
    and "t \<in> fst ` set (fst acc)"
  shows "\<exists>ts. (t, ts) \<in> set (fst (assign_track U tts romanize_names parsed f acc)) \<and> x \<in> set ts"
proof -
  from map_entry_hits [OF assms(2), of "\<lambda>tracks. tracks @ [x]"] obtain ts0
    where "(t, ts0 @ [x]) \<in> set (AList.map_entry t (\<lambda>tracks. tracks @ [x]) (fst acc))"
    by blast
  with assms(1) show ?thesis by (auto simp: assign_track_additions)
qed

lemma assign_all_places:
  "(parsed, f) \<in> set cs \<Longrightarrow> placement U (map_of tts) romanize_names parsed f = Some (t, x)
     \<Longrightarrow> t \<in> fst ` set (fst acc)
     \<Longrightarrow> \<exists>ts. (t, ts) \<in> set (fst (assign_all U tts romanize_names cs acc)) \<and> x \<in> set ts"
proof (induction cs arbitrary: acc)
  case Nil
  then show ?case by simp
next
  case (Cons c cs)
  obtain p0 f0 where c: "c = (p0, f0)" by (cases c)
  have keys: "t \<in> fst ` set (fst (assign_track U tts romanize_names p0 f0 acc))"
    using Cons.prems(3) assign_track_keys [of U tts romanize_names p0 f0 acc]
    by (metis set_map)
  show ?case
  proof (cases "(parsed, f) = c")
    case True
    with c Cons.prems(2,3) assign_track_places [of U tts romanize_names parsed f t x acc]
    obtain ts1 where "(t, ts1) \<in> set (fst (assign_track U tts romanize_names p0 f0 acc))"
      "x \<in> set ts1" by auto
    from assign_all_keeps [OF this, of U tts romanize_names cs] c show ?thesis
      by (simp add: assign_all_Cons)
  next
    case False
    with Cons.prems(1) have "(parsed, f) \<in> set cs" by auto
    from Cons.IH [OF this Cons.prems(2) keys] c show ?thesis by (simp add: assign_all_Cons)
  qed
qed

lemma assign_all_nothing:
  "(\<And>parsed f. (parsed, f) \<in> set cs \<Longrightarrow> placement U (map_of tts) romanize_names parsed f = None)
     \<Longrightarrow> fst (assign_all U tts romanize_names cs acc) = fst acc"
proof (induction cs arbitrary: acc)
  case Nil
  then show ?case by (simp add: assign_all_Nil)
next
  case (Cons c cs)
  obtain parsed f where c: "c = (parsed, f)" by (cases c)
  have "placement U (map_of tts) romanize_names parsed f = None"
    using Cons.prems [of parsed f] c by simp
  then have "fst (assign_track U tts romanize_names parsed f acc) = fst acc"
    by (simp add: assign_track_additions)
  moreover have "fst (assign_all U tts romanize_names cs
                    (assign_track U tts romanize_names parsed f acc))
                  = fst (assign_track U tts romanize_names parsed f acc)"
    using Cons.prems by (intro Cons.IH) simp
  ultimately show ?case using c by (simp add: assign_all_Cons)
qed

lemma placement_Some:
  assumes "placement U lookup romanize_names parsed f = Some (t, x)"
  shows "guess_spot_title U (descriptor parsed) = Some t
       \<and> (\<exists>s. lookup t = Some s
             \<and> \<not> list_ex (\<lambda>y. track_file y = Some (asc ''audio/'' @ path_name f))
                    (playlist_or_empty s))
       \<and> track_file x = Some (asc ''audio/'' @ path_name f)
       \<and> track_name x = build_track_name (speaker parsed) (descriptor parsed) romanize_names"
  using assms by (auto simp: placement_def split: option.splits if_splits)

lemma plan_candidates_member:
  "(parsed, f) \<in> set (plan_candidates U unknown_date keep targets rename_plan)
     \<Longrightarrow> \<exists>it \<in> set rename_plan.
           parse_audio_name U (path_name (src it)) unknown_date keep = Some parsed
         \<and> speaker parsed \<in> targets \<and> f = dst it"
  by (induction rename_plan)
     (auto simp: plan_candidates_def map_filter_simps split: option.splits if_splits)

lemma file_candidates_member:
  "(parsed, f) \<in> set (file_candidates U unknown_date keep targets files)
     \<Longrightarrow> f \<in> set files \<and> parse_audio_name U (path_name f) unknown_date keep = Some parsed"
  by (induction files)
     (auto simp: file_candidates_def map_filter_simps split: option.splits if_splits)

text \<open>\<open>additions = {t: [] for t in title_to_spot.keys()}\<close>.\<close>

definition no_additions :: "(ustr \<times> spot) list \<Rightarrow> (ustr \<times> track list) list" where
  "no_additions tts = map (\<lambda>(t, s). (t, [])) tts"

lemma no_additions_empty: "(t, ts) \<in> set (no_additions tts) \<Longrightarrow> ts = []"
  by (auto simp: no_additions_def)

lemma no_additions_keys: "fst ` set (no_additions tts) = fst ` set tts"
  by (force simp: no_additions_def)

lemma from_rename_plan_additions:
  "fst (plan_spots_additions_from_rename_plan U spots rename_plan unknown_date keep
          romanize_names targets) =
     filter (\<lambda>(k, v). v \<noteq> [])
       (fst (assign_all U (title_to_spot_of spots) romanize_names
               (plan_candidates U unknown_date keep targets rename_plan)
               (no_additions (title_to_spot_of spots), [])))"
  by (simp add: plan_spots_additions_from_rename_plan_def assign_plan_items_fold
        no_additions_def Let_def split_def)

lemma from_files_additions:
  "fst (plan_spots_additions U spots audio_files unknown_date keep romanize_names targets) =
     filter (\<lambda>(k, v). v \<noteq> [])
       (fst (assign_all U (title_to_spot_of spots) romanize_names
               (file_candidates U unknown_date keep targets (sort audio_files))
               (no_additions (title_to_spot_of spots), [])))"
  by (simp add: plan_spots_additions_def assign_files_fold no_additions_def Let_def split_def)

text \<open>
  C1 (as amended). For every rename plan, every track entry that
  \<open>plan_spots_additions_from_rename_plan\<close> records under a location comes from an item
  of the plan such that: the item's original (source) file name parses, the parsed
  speaker is a target, the descriptor parsed from the source name is what the classifier
  maps to that location and what the track name is built from, and the entry's \<open>file\<close>
  is \<open>audio/\<close> followed by the item's destination file name.
\<close>

theorem rename_plan_assignment_sources:
  assumes "(t, ts) \<in> set (fst (plan_spots_additions_from_rename_plan U spots rename_plan
                                 unknown_date keep romanize_names targets))"
    and "x \<in> set ts"
  shows "\<exists>it \<in> set rename_plan. \<exists>parsed.
            parse_audio_name U (path_name (src it)) unknown_date keep = Some parsed
          \<and> speaker parsed \<in> targets
          \<and> guess_spot_title U (descriptor parsed) = Some t
          \<and> track_name x = build_track_name (speaker parsed) (descriptor parsed) romanize_names
          \<and> track_file x = Some (asc ''audio/'' @ path_name (dst it))"
proof -
  let ?tts = "title_to_spot_of spots"
  let ?cs = "plan_candidates U unknown_date keep targets rename_plan"
  from assms(1)
  have "(t, ts) \<in> set (fst (assign_all U ?tts romanize_names ?cs (no_additions ?tts, [])))"
    by (simp add: from_rename_plan_additions)
  from assign_all_origin [OF this assms(2)]
  obtain parsed f where c: "(parsed, f) \<in> set ?cs"
    and p: "placement U (map_of ?tts) romanize_names parsed f = Some (t, x)"
    using no_additions_empty by fastforce
  from plan_candidates_member [OF c] obtain it where it: "it \<in> set rename_plan"
    "parse_audio_name U (path_name (src it)) unknown_date keep = Some parsed"
    "speaker parsed \<in> targets" "f = dst it"
    by blast
  with placement_Some [OF p] show ?thesis by blast
qed

lemma title_to_spot_lookup_gen:
  "map_of (foldl (\<lambda>d s. AList.update (title s) s d) d0 spots) t =
     (case last_spot t spots of Some s \<Rightarrow> Some s | None \<Rightarrow> map_of d0 t)"
  by (induction spots arbitrary: d0) (auto simp: update_conv' split: option.splits)

lemma title_to_spot_lookup: "map_of (title_to_spot_of spots) t = last_spot t spots"
  by (simp add: title_to_spot_of_def title_to_spot_lookup_gen split: option.splits)

lemma last_spot_extend_last:
  "last_spot t' (extend_last t tracks spots) =
     (if t' = t
      then map_option (\<lambda>s. s\<lparr>playlist := Some (playlist_or_empty s @ tracks)\<rparr>) (last_spot t spots)
      else last_spot t' spots)"
  by (induction spots) (auto split: option.splits)

section \<open>The assignment planner on a concrete plan\<close>

text \<open>
  Two location records, and the plan for a directory that holds only the file of the
  second scenario: it is renamed to U+9234 U+6728 \<open>_UnknownDate_WAV0018_001_\<close> U+6EDD
  \<open>_1.mp3\<close>.
\<close>

definition example_spots :: "spot list" where
  "example_spots =
     [\<lparr>title = suigou_no_taki, playlist = None\<rparr>,
      \<lparr>title = mori1, playlist = Some [\<lparr>track_name = asc ''birds'', track_file = Some (asc ''audio/birds.mp3'')\<rparr>]\<rparr>]"

definition scenario_plan :: "RenamePlanItem list" where
  "scenario_plan = [\<lparr>src = audio @ [suzuki_file], dst = audio @ [renamed_suzuki_file]\<rparr>]"

definition scenario_track :: track where
  "scenario_track =
     \<lparr>track_name = suzuki @ asc '':'' @ [0x6EDD, 0x5F, 0x31],
      track_file = Some (asc ''audio/'' @ renamed_suzuki_file)\<rparr>"

lemmas assign_eval_defs =
  plan_spots_additions_from_rename_plan_def plan_spots_additions_def title_to_spot_of_def
  assign_track_def playlist_or_empty_def build_track_name_def romaji_def NAME_ROMAJI_def
  guess_spot_title_def KEYWORD_TO_SPOT_TITLE_def
  rinrin_port_def shiawase_no_kane_def suisha_def fuusha_def tamokuteki_hiroba_def
  suigou_no_taki_def zeppelin_gou_def rest_house_def sanpomichi_def jogging_course_def mori1_def

lemma scenario_assignment:
  "plan_spots_additions_from_rename_plan python_unicode example_spots scenario_plan
       (asc ''UnknownDate'') True False {suzuki}
     = ([(suigou_no_taki, [scenario_track])], [])"
  by (simp add: example_spots_def scenario_plan_def scenario_track_def audio_def suzuki_def
        suzuki_file_def renamed_suzuki_file_def assign_eval_defs eval_defs)

lemma renamed_assignment:
  "plan_spots_additions_from_rename_plan python_unicode example_spots
       [\<lparr>src = audio @ [renamed_suzuki_file], dst = audio @ [renamed_suzuki_file]\<rparr>]
       (asc ''UnknownDate'') True False {suzuki}
     = ([], [])"
  by (simp add: example_spots_def audio_def suzuki_def
        renamed_suzuki_file_def assign_eval_defs eval_defs)

text \<open>
  A directory with two files, the file of the second scenario and \<open>loop_file\<close>, its plan,
  and the tracks the two planners make of them.
\<close>

definition renamed_loop_file :: ustr where
  "renamed_loop_file = suzuki @ asc ''_UnknownDate_WAV0018_001_'' @ [0x6EDD] @ asc ''.mp3''"

definition two_files :: "path list" where
  "two_files = [audio @ [suzuki_file], audio @ [loop_file]]"

definition two_item_plan :: "RenamePlanItem list" where
  "two_item_plan =
     [\<lparr>src = audio @ [suzuki_file], dst = audio @ [renamed_suzuki_file]\<rparr>,
      \<lparr>src = audio @ [loop_file], dst = audio @ [renamed_loop_file]\<rparr>]"

definition file_track :: track where
  "file_track =
     \<lparr>track_name = suzuki @ asc '':'' @ [0x6EDD, 0x5F, 0x31],
      track_file = Some (asc ''audio/'' @ suzuki_file)\<rparr>"

definition loop_track :: track where
  "loop_track =
     \<lparr>track_name = suzuki @ asc '':'' @ [0x6EDD],
      track_file = Some (asc ''audio/'' @ loop_file)\<rparr>"

definition renamed_loop_track :: track where
  "renamed_loop_track =
     \<lparr>track_name = suzuki @ asc '':'' @ [0x6EDD],
      track_file = Some (asc ''audio/'' @ renamed_loop_file)\<rparr>"

text \<open>Records in which the location of the waterfall already holds the first track.\<close>

definition stocked_spots :: "spot list" where
  "stocked_spots = [\<lparr>title = suigou_no_taki, playlist = Some [file_track]\<rparr>]"

text \<open>
  Candidates with one file name in two directories, \<open>a\<close> and \<open>b\<close>, as a list of files and
  as the destinations of a plan.
\<close>

definition same_name_files :: "path list" where
  "same_name_files = [[asc ''a'', suzuki_file], [asc ''b'', suzuki_file]]"

definition same_name_plan :: "RenamePlanItem list" where
  "same_name_plan =
     [\<lparr>src = [asc ''a'', suzuki_file], dst = [asc ''a'', renamed_suzuki_file]\<rparr>,
      \<lparr>src = [asc ''b'', suzuki_file], dst = [asc ''b'', renamed_suzuki_file]\<rparr>]"

lemma two_item_plan_planned:
  "plan_renames python_unicode
       [(audio @ [suzuki_file], RegularFile), (audio @ [loop_file], RegularFile)]
       audio {suzuki} False (asc ''UnknownDate'') True
     = Inr two_item_plan"
  by (simp add: two_item_plan_def loop_file_def renamed_loop_file_def renamed_suzuki_file_def
        suzuki_file_def plan_eval_defs eval_defs)

lemma two_files_assignment:
  "plan_spots_additions python_unicode example_spots two_files
       (asc ''UnknownDate'') True False {suzuki}
     = ([(suigou_no_taki, [file_track, loop_track])], [])"
  by (simp add: example_spots_def two_files_def file_track_def loop_track_def audio_def
        suzuki_def suzuki_file_def loop_file_def assign_eval_defs eval_defs)

lemma two_item_assignment:
  "plan_spots_additions_from_rename_plan python_unicode example_spots two_item_plan
       (asc ''UnknownDate'') True False {suzuki}
     = ([(suigou_no_taki, [scenario_track, renamed_loop_track])], [])"
  by (simp add: example_spots_def two_item_plan_def scenario_track_def renamed_loop_track_def
        audio_def suzuki_def suzuki_file_def loop_file_def renamed_loop_file_def
        renamed_suzuki_file_def assign_eval_defs eval_defs)

lemma stocked_assignment:
  "plan_spots_additions python_unicode stocked_spots two_files
       (asc ''UnknownDate'') True False {suzuki}
     = ([(suigou_no_taki, [loop_track])], [])"
  by (simp add: stocked_spots_def two_files_def file_track_def loop_track_def audio_def
        suzuki_def suzuki_file_def loop_file_def assign_eval_defs eval_defs)

lemma same_name_files_assignment:
  "plan_spots_additions python_unicode example_spots same_name_files
       (asc ''UnknownDate'') True False {suzuki}
     = ([(suigou_no_taki, [file_track, file_track])], [])"
  by (simp add: example_spots_def same_name_files_def file_track_def
        suzuki_def suzuki_file_def assign_eval_defs eval_defs)

lemma same_name_plan_assignment:
  "plan_spots_additions_from_rename_plan python_unicode example_spots same_name_plan
       (asc ''UnknownDate'') True False {suzuki}
     = ([(suigou_no_taki, [scenario_track, scenario_track])], [])"
  by (simp add: example_spots_def same_name_plan_def scenario_track_def
        suzuki_def suzuki_file_def renamed_suzuki_file_def assign_eval_defs eval_defs)


text \<open>
  The track of the scenario is named after the descriptor of the source name and filed
  under the destination name.
\<close>

theorem rename_plan_assignment_sources_witness:
  "\<exists>it \<in> set scenario_plan. \<exists>parsed.
      parse_audio_name python_unicode (path_name (src it)) (asc ''UnknownDate'') True = Some parsed
    \<and> speaker parsed \<in> {suzuki}
    \<and> guess_spot_title python_unicode (descriptor parsed) = Some suigou_no_taki
    \<and> track_name scenario_track
          = build_track_name (speaker parsed) (descriptor parsed) False
    \<and> track_file scenario_track = Some (asc ''audio/'' @ path_name (dst it))"
proof -
  have "(suigou_no_taki, [scenario_track])
          \<in> set (fst (plan_spots_additions_from_rename_plan python_unicode example_spots
                         scenario_plan (asc ''UnknownDate'') True False {suzuki}))"
    by (simp add: scenario_assignment)
  then show ?thesis by (rule rename_plan_assignment_sources) simp
qed

text \<open>
  C1 as it is stated derives the descriptor from the destination name. The destination
  name of the scenario is not a name either grammar accepts, and a plan with the same
  destination and another source is assigned differently: what is classified is the
  source name.
\<close>

theorem descriptor_from_destination_counterexample:
  "\<not> (\<forall>plan plan'. map dst plan = map dst plan' \<longrightarrow>
         fst (plan_spots_additions_from_rename_plan python_unicode example_spots plan
                (asc ''UnknownDate'') True False {suzuki})
         = fst (plan_spots_additions_from_rename_plan python_unicode example_spots plan'
                  (asc ''UnknownDate'') True False {suzuki}))"
proof
  assume a: "\<forall>plan plan'. map dst plan = map dst plan' \<longrightarrow>
         fst (plan_spots_additions_from_rename_plan python_unicode example_spots plan
                (asc ''UnknownDate'') True False {suzuki})
         = fst (plan_spots_additions_from_rename_plan python_unicode example_spots plan'
                  (asc ''UnknownDate'') True False {suzuki})"
  have "map dst scenario_plan
          = map dst [\<lparr>src = audio @ [renamed_suzuki_file], dst = audio @ [renamed_suzuki_file]\<rparr>]"
    by (simp add: scenario_plan_def)
  with a have
    "fst (plan_spots_additions_from_rename_plan python_unicode example_spots scenario_plan
            (asc ''UnknownDate'') True False {suzuki})
     = fst (plan_spots_additions_from_rename_plan python_unicode example_spots
              [\<lparr>src = audio @ [renamed_suzuki_file], dst = audio @ [renamed_suzuki_file]\<rparr>]
              (asc ''UnknownDate'') True False {suzuki})"
    by blast
  then show False by (simp add: scenario_assignment renamed_assignment)
qed

section \<open>Running the assignment planner twice\<close>

lemma playlist_or_empty_extended [simp]:
  "playlist_or_empty (s\<lparr>playlist := Some (playlist_or_empty s @ tracks)\<rparr>)
     = playlist_or_empty s @ tracks"
  by (simp add: playlist_or_empty_def)

lemma apply_spots_additions_Cons:
  "apply_spots_additions spots ((t, tracks) # additions)
     = apply_spots_additions (extend_last t tracks spots) additions"
  by (simp add: apply_spots_additions_def)

lemma apply_keeps_titles:
  "last_spot t (apply_spots_additions spots additions) = None \<longleftrightarrow> last_spot t spots = None"
proof (induction additions arbitrary: spots)
  case Nil
  show ?case by (simp add: apply_spots_additions_def)
next
  case (Cons a additions)
  obtain t0 tr0 where a: "a = (t0, tr0)" by (cases a)
  show ?case unfolding a apply_spots_additions_Cons Cons.IH
    by (simp add: last_spot_extend_last)
qed

lemma apply_extends_playlists:
  "last_spot t spots = Some s
     \<Longrightarrow> \<exists>s'. last_spot t (apply_spots_additions spots additions) = Some s'
            \<and> set (playlist_or_empty s) \<subseteq> set (playlist_or_empty s')
            \<and> (\<forall>tracks. (t, tracks) \<in> set additions
                   \<longrightarrow> set tracks \<subseteq> set (playlist_or_empty s'))"
proof (induction additions arbitrary: spots s)
  case Nil
  then show ?case by (simp add: apply_spots_additions_def)
next
  case (Cons a additions)
  obtain t0 tr0 where a: "a = (t0, tr0)" by (cases a)
  let ?s1 = "if t = t0 then s\<lparr>playlist := Some (playlist_or_empty s @ tr0)\<rparr> else s"
  have l: "last_spot t (extend_last t0 tr0 spots) = Some ?s1"
    using Cons.prems by (auto simp: last_spot_extend_last)
  from Cons.IH [OF l] obtain s'
    where s': "last_spot t (apply_spots_additions (extend_last t0 tr0 spots) additions) = Some s'"
      and sub: "set (playlist_or_empty ?s1) \<subseteq> set (playlist_or_empty s')"
      and rest: "\<forall>tracks. (t, tracks) \<in> set additions
                   \<longrightarrow> set tracks \<subseteq> set (playlist_or_empty s')"
    by blast
  have old: "set (playlist_or_empty s) \<subseteq> set (playlist_or_empty s')"
    using sub by (auto split: if_splits)
  have new: "set tr0 \<subseteq> set (playlist_or_empty s')" if "t = t0"
    using sub that by auto
  show ?case
    unfolding a apply_spots_additions_Cons
    using s' old new rest by auto
qed

lemma placement_Some_nonempty:
  "placement U lookup romanize_names parsed f = Some (t, x) \<Longrightarrow> t \<noteq> []"
  by (auto simp: placement_def split: option.splits if_splits)

lemma placement_found:
  assumes "guess_spot_title U (descriptor parsed) = Some t" "t \<noteq> []" "lookup t = Some s"
    and "\<not> list_ex (\<lambda>y. track_file y = Some (asc ''audio/'' @ path_name f)) (playlist_or_empty s)"
  shows "\<exists>x. placement U lookup romanize_names parsed f = Some (t, x)
             \<and> track_file x = Some (asc ''audio/'' @ path_name f)"
  using assms by (simp add: placement_def)

lemma filter_no_additions: "filter (\<lambda>(k, v). v \<noteq> []) (no_additions tts) = []"
  by (auto simp: no_additions_def filter_empty_conv)

lemma second_run_placement:
  assumes adds1: "adds1 = filter (\<lambda>(k, v). v \<noteq> [])
                    (fst (assign_all U (title_to_spot_of spots) romanize_names cs
                            (no_additions (title_to_spot_of spots), [])))"
    and mem: "(parsed, f) \<in> set cs"
  shows "placement U (map_of (title_to_spot_of (apply_spots_additions spots adds1)))
           romanize_names parsed f = None"
proof (rule ccontr)
  let ?rel = "asc ''audio/'' @ path_name f"
  let ?tts = "title_to_spot_of spots"
  let ?spots' = "apply_spots_additions spots adds1"
  assume "placement U (map_of (title_to_spot_of ?spots')) romanize_names parsed f \<noteq> None"
  then obtain t x
    where p2: "placement U (map_of (title_to_spot_of ?spots')) romanize_names parsed f = Some (t, x)"
    by auto
  from placement_Some [OF p2] obtain s'
    where g: "guess_spot_title U (descriptor parsed) = Some t"
      and s': "last_spot t ?spots' = Some s'"
      and no: "\<not> list_ex (\<lambda>y. track_file y = Some ?rel) (playlist_or_empty s')"
    by (auto simp: title_to_spot_lookup)
  from placement_Some_nonempty [OF p2] have ne: "t \<noteq> []" .
  from s' have "last_spot t spots \<noteq> None"
    using apply_keeps_titles [of t spots adds1] by simp
  then obtain s where s: "last_spot t spots = Some s" by auto
  from apply_extends_playlists [OF s, of adds1] s'
  have sub: "set (playlist_or_empty s) \<subseteq> set (playlist_or_empty s')"
    and added: "\<And>tracks. (t, tracks) \<in> set adds1 \<Longrightarrow> set tracks \<subseteq> set (playlist_or_empty s')"
    by auto
  show False
  proof (cases "list_ex (\<lambda>y. track_file y = Some ?rel) (playlist_or_empty s)")
    case True
    with sub have "list_ex (\<lambda>y. track_file y = Some ?rel) (playlist_or_empty s')"
      by (auto simp: list_ex_iff)
    with no show False by contradiction
  next
    case False
    have look: "map_of ?tts t = Some s" using s by (simp add: title_to_spot_lookup)
    from placement_found [where lookup = "map_of ?tts" and romanize_names = romanize_names,
        OF g ne look False]
    obtain x1
      where p1: "placement U (map_of ?tts) romanize_names parsed f = Some (t, x1)"
        and f1: "track_file x1 = Some ?rel"
      by blast
    from look have "t \<in> fst ` set ?tts" by (metis map_of_SomeD fst_conv image_eqI)
    then have key: "t \<in> fst ` set (fst (no_additions ?tts, ([]::path list)))"
      by (simp add: no_additions_keys)
    from assign_all_places [OF mem p1 key] obtain ts
      where ts: "(t, ts) \<in> set (fst (assign_all U ?tts romanize_names cs (no_additions ?tts, [])))"
        and x1: "x1 \<in> set ts"
      by blast
    from x1 have "ts \<noteq> []" by auto
    with ts have "(t, ts) \<in> set adds1" by (simp add: adds1)
    from added [OF this] x1 have "x1 \<in> set (playlist_or_empty s')" by auto
    with f1 have "list_ex (\<lambda>y. track_file y = Some ?rel) (playlist_or_empty s')"
      by (auto simp: list_ex_iff)
    with no show False by contradiction
  qed
qed

lemma second_run_nothing:
  assumes "adds1 = filter (\<lambda>(k, v). v \<noteq> [])
                    (fst (assign_all U (title_to_spot_of spots) romanize_names cs
                            (no_additions (title_to_spot_of spots), [])))"
  shows "filter (\<lambda>(k, v). v \<noteq> [])
           (fst (assign_all U (title_to_spot_of (apply_spots_additions spots adds1))
                   romanize_names cs
                   (no_additions (title_to_spot_of (apply_spots_additions spots adds1)), [])))
         = []"
proof -
  have "fst (assign_all U (title_to_spot_of (apply_spots_additions spots adds1))
                   romanize_names cs
                   (no_additions (title_to_spot_of (apply_spots_additions spots adds1)), []))
        = fst (no_additions (title_to_spot_of (apply_spots_additions spots adds1)), ([]::path list))"
    by (rule assign_all_nothing) (rule second_run_placement [OF assms])
  then show ?thesis by (simp add: filter_no_additions)
qed

lemma guard_generic:
  assumes "(t, ts) \<in> set (filter (\<lambda>(k, v). v \<noteq> [])
                    (fst (assign_all U (title_to_spot_of spots) romanize_names cs
                            (no_additions (title_to_spot_of spots), []))))"
    and "x \<in> set ts"
  shows "\<exists>s. last_spot t spots = Some s
           \<and> \<not> list_ex (\<lambda>y. track_file y = track_file x) (playlist_or_empty s)"
proof -
  from assms(1)
  have "(t, ts) \<in> set (fst (assign_all U (title_to_spot_of spots) romanize_names cs
                            (no_additions (title_to_spot_of spots), [])))"
    by simp
  from assign_all_origin [OF this assms(2)]
  obtain parsed f where "placement U (map_of (title_to_spot_of spots)) romanize_names parsed f
                           = Some (t, x)"
    using no_additions_empty by fastforce
  from placement_Some [OF this] show ?thesis
    by (auto simp: title_to_spot_lookup)
qed

text \<open>
  Within one run: when the candidate files have different names, the tracks collected for
  a location have different \<open>file\<close> values. \<open>N\<close> is the set of names seen so far.
\<close>

definition fresh_files :: "ustr set \<Rightarrow> (ustr \<times> track list) list \<Rightarrow> bool" where
  "fresh_files N additions =
     (\<forall>(t, ts) \<in> set additions.
         distinct (map track_file ts)
       \<and> (\<forall>x \<in> set ts. \<exists>n \<in> N. track_file x = Some (asc ''audio/'' @ n)))"

lemma fresh_files_mono: "fresh_files N additions \<Longrightarrow> N \<subseteq> M \<Longrightarrow> fresh_files M additions"
  unfolding fresh_files_def by fast

lemma fresh_files_snoc:
  assumes fresh: "fresh_files N additions"
    and new: "track_file x = Some (asc ''audio/'' @ nm)" "nm \<notin> N"
  shows "fresh_files (insert nm N) (AList.map_entry t (\<lambda>tracks. tracks @ [x]) additions)"
  unfolding fresh_files_def
proof (intro ballI, clarify)
  fix t' ts'
  assume "(t', ts') \<in> set (AList.map_entry t (\<lambda>tracks. tracks @ [x]) additions)"
  from map_entry_origin [OF this]
  show "distinct (map track_file ts')
      \<and> (\<forall>y \<in> set ts'. \<exists>n \<in> insert nm N. track_file y = Some (asc ''audio/'' @ n))"
  proof
    assume "(t', ts') \<in> set additions"
    with fresh show ?thesis unfolding fresh_files_def by fast
  next
    assume "t' = t \<and> (\<exists>ts0. (t, ts0) \<in> set additions \<and> ts' = ts0 @ [x])"
    then obtain ts0 where ts0: "(t, ts0) \<in> set additions" "ts' = ts0 @ [x]" by blast
    from fresh ts0(1) have d: "distinct (map track_file ts0)"
      and n: "\<forall>y \<in> set ts0. \<exists>n \<in> N. track_file y = Some (asc ''audio/'' @ n)"
      unfolding fresh_files_def by fast+
    have "track_file x \<notin> set (map track_file ts0)"
    proof
      assume "track_file x \<in> set (map track_file ts0)"
      then obtain y where "y \<in> set ts0" "track_file y = track_file x" by auto
      with n new(1) obtain n0 where "n0 \<in> N" "asc ''audio/'' @ n0 = asc ''audio/'' @ nm"
        by fastforce
      with new(2) show False by simp
    qed
    with d n new(1) ts0(2) show ?thesis by auto
  qed
qed

lemma assign_track_fresh:
  assumes "fresh_files N (fst acc)" "path_name f \<notin> N"
  shows "fresh_files (insert (path_name f) N)
           (fst (assign_track U tts romanize_names parsed f acc))"
proof (cases "placement U (map_of tts) romanize_names parsed f")
  case None
  with assms(1) show ?thesis
    by (auto simp: assign_track_additions intro: fresh_files_mono)
next
  case (Some a)
  obtain t x where a: "a = (t, x)" by (cases a)
  from Some a placement_Some [of U "map_of tts" romanize_names parsed f t x]
  have "track_file x = Some (asc ''audio/'' @ path_name f)" by simp
  from fresh_files_snoc [OF assms(1) this assms(2)] Some a show ?thesis
    by (simp add: assign_track_additions)
qed

lemma assign_all_fresh:
  "distinct (map (path_name \<circ> snd) cs) \<Longrightarrow> fresh_files N (fst acc)
     \<Longrightarrow> N \<inter> set (map (path_name \<circ> snd) cs) = {}
     \<Longrightarrow> fresh_files (N \<union> set (map (path_name \<circ> snd) cs))
           (fst (assign_all U tts romanize_names cs acc))"
proof (induction cs arbitrary: acc N)
  case Nil
  then show ?case by (simp add: assign_all_Nil)
next
  case (Cons c cs)
  obtain parsed f where c: "c = (parsed, f)" by (cases c)
  from Cons.prems c have nf: "path_name f \<notin> N" by auto
  have step: "fresh_files (insert (path_name f) N)
                (fst (assign_track U tts romanize_names parsed f acc))"
    using Cons.prems(2) nf by (rule assign_track_fresh)
  have d: "distinct (map (path_name \<circ> snd) cs)" using Cons.prems(1) by (simp add: comp_def)
  have disj: "insert (path_name f) N \<inter> set (map (path_name \<circ> snd) cs) = {}"
    using Cons.prems(1,3) c by auto
  from Cons.IH [OF d step disj] c show ?case by (simp add: assign_all_Cons)
qed

lemma fresh_files_no_additions: "fresh_files {} (no_additions tts)"
  by (auto simp: fresh_files_def no_additions_def)

lemma one_run_distinct:
  assumes "distinct (map (path_name \<circ> snd) cs)"
    and "(t, ts) \<in> set (filter (\<lambda>(k, v). v \<noteq> [])
                    (fst (assign_all U tts romanize_names cs (no_additions tts, []))))"
  shows "distinct (map track_file ts)"
proof -
  have "fresh_files ({} \<union> set (map (path_name \<circ> snd) cs))
          (fst (assign_all U tts romanize_names cs (no_additions tts, [])))"
    using assms(1) by (intro assign_all_fresh) (simp_all add: fresh_files_no_additions)
  with assms(2) show ?thesis unfolding fresh_files_def by fastforce
qed

lemma file_candidates_paths:
  "map snd (file_candidates U unknown_date keep targets files)
     = filter (\<lambda>f. \<exists>parsed. (parsed, f) \<in> set (file_candidates U unknown_date keep targets [f]))
         files"
  by (induction files)
     (auto simp: file_candidates_def map_filter_simps split: option.splits if_splits)

lemma plan_candidates_paths:
  "map snd (plan_candidates U unknown_date keep targets rename_plan)
     = map dst (filter (\<lambda>it. plan_candidates U unknown_date keep targets [it] \<noteq> [])
         rename_plan)"
  by (induction rename_plan)
     (auto simp: plan_candidates_def map_filter_simps split: option.splits if_splits)

lemma file_candidates_distinct:
  assumes "distinct (map path_name files)"
  shows "distinct (map (path_name \<circ> snd) (file_candidates U unknown_date keep targets (sort files)))"
proof -
  from assms have "distinct (map path_name (sort files))"
    by (simp add: distinct_map)
  then have "distinct (map path_name (map snd
               (file_candidates U unknown_date keep targets (sort files))))"
    unfolding file_candidates_paths by (rule distinct_map_filter)
  then show ?thesis by simp
qed

lemma plan_candidates_distinct:
  assumes "distinct (map (path_name \<circ> dst) rename_plan)"
  shows "distinct (map (path_name \<circ> snd) (plan_candidates U unknown_date keep targets rename_plan))"
proof -
  from assms have "distinct (map (path_name \<circ> dst)
      (filter (\<lambda>it. plan_candidates U unknown_date keep targets [it] \<noteq> []) rename_plan))"
    by (rule distinct_map_filter)
  then have "distinct (map path_name (map snd
               (plan_candidates U unknown_date keep targets rename_plan)))"
    unfolding plan_candidates_paths by simp
  then show ?thesis by simp
qed

text \<open>
  C4 (as amended). The planner is run, its additions are merged into the records, and it is
  run again on the merged records with the same candidates and configuration: the second
  run returns no addition at all, for either planner, so none whose \<open>file\<close> is already in
  the location's playlist. In any run, no track that is added has the \<open>file\<close> of a track
  already in the playlist of the record it is added to. The tracks that one run adds to
  one location have different \<open>file\<close> values when the candidates have different file
  names: the files of the list for \<open>plan_spots_additions\<close>, the destinations of the plan
  for \<open>plan_spots_additions_from_rename_plan\<close>; every plan that \<open>plan_renames\<close> returns is
  such a plan. The planners compare a candidate with the stored playlist only, not with
  the tracks collected earlier in the same run.
\<close>

theorem assignment_idempotent:
  "fst (plan_spots_additions U
          (apply_spots_additions spots
             (fst (plan_spots_additions U spots audio_files unknown_date keep
                     romanize_names targets)))
          audio_files unknown_date keep romanize_names targets) = []
   \<and> fst (plan_spots_additions_from_rename_plan U
            (apply_spots_additions spots
               (fst (plan_spots_additions_from_rename_plan U spots rename_plan unknown_date keep
                       romanize_names targets)))
            rename_plan unknown_date keep romanize_names targets) = []
   \<and> (\<forall>t ts x.
         ((t, ts) \<in> set (fst (plan_spots_additions U spots audio_files unknown_date keep
                                 romanize_names targets))
          \<or> (t, ts) \<in> set (fst (plan_spots_additions_from_rename_plan U spots rename_plan
                                    unknown_date keep romanize_names targets)))
         \<and> x \<in> set ts
         \<longrightarrow> (\<exists>s. last_spot t spots = Some s
                \<and> \<not> list_ex (\<lambda>y. track_file y = track_file x) (playlist_or_empty s)))
   \<and> (distinct (map path_name audio_files)
        \<longrightarrow> (\<forall>(t, ts) \<in> set (fst (plan_spots_additions U spots audio_files unknown_date keep
                                       romanize_names targets)).
               distinct (map track_file ts)))
   \<and> (distinct (map (path_name \<circ> dst) rename_plan)
        \<longrightarrow> (\<forall>(t, ts) \<in> set (fst (plan_spots_additions_from_rename_plan U spots rename_plan
                                       unknown_date keep romanize_names targets)).
               distinct (map track_file ts)))
   \<and> (plan_renames U fs audio_dir targets romanize_names unknown_date keep = Inr rename_plan
        \<longrightarrow> (\<forall>(t, ts) \<in> set (fst (plan_spots_additions_from_rename_plan U spots rename_plan
                                       unknown_date keep romanize_names targets)).
               distinct (map track_file ts)))"
proof (intro conjI allI impI ballI)
  show "fst (plan_spots_additions U
          (apply_spots_additions spots
             (fst (plan_spots_additions U spots audio_files unknown_date keep
                     romanize_names targets)))
          audio_files unknown_date keep romanize_names targets) = []"
    unfolding from_files_additions [of U _ audio_files]
    by (rule second_run_nothing) (rule refl)
next
  show "fst (plan_spots_additions_from_rename_plan U
            (apply_spots_additions spots
               (fst (plan_spots_additions_from_rename_plan U spots rename_plan unknown_date keep
                       romanize_names targets)))
            rename_plan unknown_date keep romanize_names targets) = []"
    unfolding from_rename_plan_additions [of U _ rename_plan]
    by (rule second_run_nothing) (rule refl)
next
  fix t ts x
  assume a: "((t, ts) \<in> set (fst (plan_spots_additions U spots audio_files unknown_date keep
                                 romanize_names targets))
          \<or> (t, ts) \<in> set (fst (plan_spots_additions_from_rename_plan U spots rename_plan
                                    unknown_date keep romanize_names targets)))
         \<and> x \<in> set ts"
  then show "\<exists>s. last_spot t spots = Some s
                \<and> \<not> list_ex (\<lambda>y. track_file y = track_file x) (playlist_or_empty s)"
    unfolding from_files_additions from_rename_plan_additions
    using guard_generic by blast
next
  fix p
  assume d: "distinct (map path_name audio_files)"
    and p: "p \<in> set (fst (plan_spots_additions U spots audio_files unknown_date keep
                             romanize_names targets))"
  obtain t ts where pt: "p = (t, ts)" by (cases p)
  from p pt
  have mem: "(t, ts) \<in> set (filter (\<lambda>(k, v). v \<noteq> [])
               (fst (assign_all U (title_to_spot_of spots) romanize_names
                       (file_candidates U unknown_date keep targets (sort audio_files))
                       (no_additions (title_to_spot_of spots), []))))"
    by (simp add: from_files_additions)
  have "distinct (map track_file ts)"
    by (rule one_run_distinct [OF file_candidates_distinct [OF d] mem])
  with pt show "case p of (t, ts) \<Rightarrow> distinct (map track_file ts)" by simp
next
  fix p
  assume d: "distinct (map (path_name \<circ> dst) rename_plan)"
    and p: "p \<in> set (fst (plan_spots_additions_from_rename_plan U spots rename_plan
                             unknown_date keep romanize_names targets))"
  obtain t ts where pt: "p = (t, ts)" by (cases p)
  from p pt
  have mem: "(t, ts) \<in> set (filter (\<lambda>(k, v). v \<noteq> [])
               (fst (assign_all U (title_to_spot_of spots) romanize_names
                       (plan_candidates U unknown_date keep targets rename_plan)
                       (no_additions (title_to_spot_of spots), []))))"
    by (simp add: from_rename_plan_additions)
  have "distinct (map track_file ts)"
    by (rule one_run_distinct [OF plan_candidates_distinct [OF d] mem])
  with pt show "case p of (t, ts) \<Rightarrow> distinct (map track_file ts)" by simp
next
  fix p
  assume pl: "plan_renames U fs audio_dir targets romanize_names unknown_date keep
                = Inr rename_plan"
    and p: "p \<in> set (fst (plan_spots_additions_from_rename_plan U spots rename_plan
                             unknown_date keep romanize_names targets))"
  obtain t ts where pt: "p = (t, ts)" by (cases p)
  from p pt
  have mem: "(t, ts) \<in> set (filter (\<lambda>(k, v). v \<noteq> [])
               (fst (assign_all U (title_to_spot_of spots) romanize_names
                       (plan_candidates U unknown_date keep targets rename_plan)
                       (no_additions (title_to_spot_of spots), []))))"
    by (simp add: from_rename_plan_additions)
  have "distinct (map track_file ts)"
    by (rule one_run_distinct
          [OF plan_candidates_distinct [OF plan_renames_distinct_names [OF pl]] mem])
  with pt show "case p of (t, ts) \<Rightarrow> distinct (map track_file ts)" by simp
qed

text \<open>
  The directory with two files: each planner adds two tracks with different \<open>file\<close>
  values to the location of the waterfall, and nothing in a second run on the merged
  records. On the records that already hold the first track, the planner adds only the
  second.
\<close>

theorem assignment_idempotent_witness:
  "fst (plan_spots_additions python_unicode
          (apply_spots_additions example_spots [(suigou_no_taki, [file_track, loop_track])])
          two_files (asc ''UnknownDate'') True False {suzuki}) = []
   \<and> fst (plan_spots_additions_from_rename_plan python_unicode
            (apply_spots_additions example_spots
               [(suigou_no_taki, [scenario_track, renamed_loop_track])])
            two_item_plan (asc ''UnknownDate'') True False {suzuki}) = []
   \<and> (\<exists>s. last_spot suigou_no_taki stocked_spots = Some s
          \<and> \<not> list_ex (\<lambda>y. track_file y = track_file loop_track) (playlist_or_empty s))
   \<and> distinct (map track_file [file_track, loop_track])
   \<and> distinct (map track_file [scenario_track, renamed_loop_track])"
proof -
  note th = assignment_idempotent [where U = python_unicode and spots = example_spots
      and audio_files = two_files and unknown_date = "asc ''UnknownDate''" and keep = True
      and romanize_names = False and targets = "{suzuki}" and rename_plan = two_item_plan
      and fs = "[(audio @ [suzuki_file], RegularFile), (audio @ [loop_file], RegularFile)]"
      and audio_dir = audio]
  note th' = assignment_idempotent [where U = python_unicode and spots = stocked_spots
      and audio_files = two_files and unknown_date = "asc ''UnknownDate''" and keep = True
      and romanize_names = False and targets = "{suzuki}" and rename_plan = two_item_plan
      and fs = "[(audio @ [suzuki_file], RegularFile), (audio @ [loop_file], RegularFile)]"
      and audio_dir = audio]
  have names: "distinct (map path_name two_files)"
    by (simp add: two_files_def path_name_def suzuki_file_def loop_file_def suzuki_def asc_def)
  have plan_names: "distinct (map (path_name \<circ> dst) two_item_plan)"
    by (simp add: two_item_plan_def path_name_def renamed_suzuki_file_def renamed_loop_file_def
          suzuki_def asc_def)
  from th [THEN conjunct1]
  have second: "fst (plan_spots_additions python_unicode
          (apply_spots_additions example_spots [(suigou_no_taki, [file_track, loop_track])])
          two_files (asc ''UnknownDate'') True False {suzuki}) = []"
    by (simp add: two_files_assignment)
  from th [THEN conjunct2, THEN conjunct1]
  have second_plan: "fst (plan_spots_additions_from_rename_plan python_unicode
            (apply_spots_additions example_spots
               [(suigou_no_taki, [scenario_track, renamed_loop_track])])
            two_item_plan (asc ''UnknownDate'') True False {suzuki}) = []"
    by (simp add: two_item_assignment)
  have m: "(suigou_no_taki, [loop_track])
             \<in> set (fst (plan_spots_additions python_unicode stocked_spots two_files
                            (asc ''UnknownDate'') True False {suzuki}))"
    by (simp add: stocked_assignment)
  from th' [THEN conjunct2, THEN conjunct2, THEN conjunct1] m
  have guard: "\<exists>s. last_spot suigou_no_taki stocked_spots = Some s
          \<and> \<not> list_ex (\<lambda>y. track_file y = track_file loop_track) (playlist_or_empty s)"
    by (elim allE [of _ suigou_no_taki] allE [of _ "[loop_track]"] allE [of _ loop_track])
       simp
  from th [THEN conjunct2, THEN conjunct2, THEN conjunct2, THEN conjunct1] names
  have d: "distinct (map track_file [file_track, loop_track])"
    by (simp add: two_files_assignment)
  from th [THEN conjunct2, THEN conjunct2, THEN conjunct2, THEN conjunct2, THEN conjunct1]
    plan_names
  have d': "distinct (map track_file [scenario_track, renamed_loop_track])"
    by (simp add: two_item_assignment)
  from th [THEN conjunct2, THEN conjunct2, THEN conjunct2, THEN conjunct2, THEN conjunct2]
    two_item_plan_planned
  have "distinct (map track_file [scenario_track, renamed_loop_track])"
    by (simp add: two_item_assignment)
  with second second_plan guard d d' show ?thesis by blast
qed

text \<open>
  C4 as it is stated fails: within one run a \<open>file\<close> can be appended twice to the same
  location. The files \<open>a/x\<close> and \<open>b/x\<close>, with \<open>x\<close> the file name of the second scenario,
  both give the track whose \<open>file\<close> is \<open>audio/x\<close>; the records hold no such track, so both
  pass the test against the stored playlist and the location of the waterfall receives
  the same \<open>file\<close> twice. The same holds for a plan whose destinations are \<open>a/y\<close> and
  \<open>b/y\<close>.
\<close>

theorem same_file_name_twice_counterexample:
  "\<not> (\<forall>audio_files.
         \<forall>(t, ts) \<in> set (fst (plan_spots_additions python_unicode example_spots audio_files
                                  (asc ''UnknownDate'') True False {suzuki})).
            distinct (map track_file ts))
   \<and> \<not> (\<forall>rename_plan.
           \<forall>(t, ts) \<in> set (fst (plan_spots_additions_from_rename_plan python_unicode
                                    example_spots rename_plan
                                    (asc ''UnknownDate'') True False {suzuki})).
              distinct (map track_file ts))"
proof
  show "\<not> (\<forall>audio_files.
         \<forall>(t, ts) \<in> set (fst (plan_spots_additions python_unicode example_spots audio_files
                                  (asc ''UnknownDate'') True False {suzuki})).
            distinct (map track_file ts))"
  proof
    assume "\<forall>audio_files.
         \<forall>(t, ts) \<in> set (fst (plan_spots_additions python_unicode example_spots audio_files
                                  (asc ''UnknownDate'') True False {suzuki})).
            distinct (map track_file ts)"
    from this [THEN spec [where x = same_name_files]] show False
      by (simp add: same_name_files_assignment)
  qed
  show "\<not> (\<forall>rename_plan.
           \<forall>(t, ts) \<in> set (fst (plan_spots_additions_from_rename_plan python_unicode
                                    example_spots rename_plan
                                    (asc ''UnknownDate'') True False {suzuki})).
              distinct (map track_file ts))"
  proof
    assume "\<forall>rename_plan.
           \<forall>(t, ts) \<in> set (fst (plan_spots_additions_from_rename_plan python_unicode
                                    example_spots rename_plan
                                    (asc ''UnknownDate'') True False {suzuki})).
              distinct (map track_file ts)"
    from this [THEN spec [where x = same_name_plan]] show False
      by (simp add: same_name_plan_assignment)
  qed
qed

end
